theory Spec2Isabelle
  imports Complex_Main "HOL-Library.Word"
begin

unbundle bit_operations_syntax

section \<open>Protocol codec\<close>

text \<open>
  A notification frame is a Python \<open>bytes\<close> object: a list of 8-bit values.
  Python integers are unbounded, so every decoded number is an \<open>int\<close>.
  Python floats are modelled by the real number they approximate.
\<close>

type_synonym byte = "8 word"

definition PACKET_TYPE_HEADER :: int where "PACKET_TYPE_HEADER = 0"
definition PACKET_TYPE_DATA :: int where "PACKET_TYPE_DATA = 1"
definition PACKET_TYPE_END :: int where "PACKET_TYPE_END = 2"

definition CMD_START_TRANSFER :: int where "CMD_START_TRANSFER = 1"
definition CMD_STOP_TRANSFER :: int where "CMD_STOP_TRANSFER = 2"

text \<open>\<open>parse_uint16_be(data, offset)\<close>: \<open>None\<close> when fewer than two bytes remain.\<close>

definition parse_uint16_be :: "byte list \<Rightarrow> nat \<Rightarrow> int option" where
  "parse_uint16_be data offset =
     (if offset + 2 > length data then None
      else Some (push_bit 8 (uint (data ! offset)) OR uint (data ! (offset + 1))))"

text \<open>\<open>encode_uint16_be(value)\<close>: the two low bytes of the value, high byte first.\<close>

definition encode_uint16_be :: "int \<Rightarrow> byte list" where
  "encode_uint16_be v = [word_of_int (drop_bit 8 v AND 255), word_of_int (v AND 255)]"

record status =
  total :: "int option"
  last_sent :: "int option"

text \<open>\<open>parse_status(data)\<close>.\<close>

definition parse_status :: "byte list \<Rightarrow> status option" where
  "parse_status data =
     (if length data < 4 then None
      else Some \<lparr>total = parse_uint16_be data 0, last_sent = parse_uint16_be data 2\<rparr>)"

text \<open>
  \<open>struct.unpack('>h', bs)[0]\<close>: a big-endian two's complement 16-bit value; the
  call raises unless \<open>bs\<close> has exactly two bytes (\<open>None\<close> here).
\<close>

definition unpack_be_i16 :: "byte list \<Rightarrow> int option" where
  "unpack_be_i16 bs =
     (case bs of
        [hi, lo] \<Rightarrow> Some (sint (word_cat hi lo :: 16 word))
      | _ \<Rightarrow> None)"

text \<open>The dictionary built by \<open>parse_sensor_record\<close>.\<close>

record raw_record =
  temp_c :: real
  press_kpa :: int
  humidity_pct :: int
  battery_v :: real
  temp_raw :: int
  press_raw :: int
  hum_raw :: int
  bat_raw :: int

text \<open>
  \<open>parse_sensor_record(data, offset)\<close>. After the length test both inner decoders
  succeed (lemma \<open>parse_sensor_record_eq\<close> below), so their \<open>None\<close> branches are
  never taken.
\<close>

definition parse_sensor_record :: "byte list \<Rightarrow> nat \<Rightarrow> raw_record option" where
  "parse_sensor_record data offset =
     (if offset + 6 > length data then None
      else
        case unpack_be_i16 (take 2 (drop offset data)) of
          None \<Rightarrow> None
        | Some temp_x10 \<Rightarrow>
           (case parse_uint16_be data (offset + 2) of
              None \<Rightarrow> None
            | Some press \<Rightarrow>
               (let hum_pct = uint (data ! (offset + 4));
                    bat_v_x10 = uint (data ! (offset + 5))
                in Some \<lparr>temp_c = of_int temp_x10 / 10,
                         press_kpa = press,
                         humidity_pct = hum_pct,
                         battery_v = of_int bat_v_x10 / 10,
                         temp_raw = temp_x10,
                         press_raw = press,
                         hum_raw = hum_pct,
                         bat_raw = bat_v_x10\<rparr>)))"

text \<open>A record after the handler has added \<open>seq\<close> and \<open>timestamp_ms\<close>.\<close>

record sensor_record = raw_record +
  seq :: int
  timestamp_ms :: int


section \<open>Notification handler\<close>

text \<open>The module-level dictionary \<open>transfer_stats\<close>.\<close>

record transfer_stats =
  header_received :: bool
  total_records :: int
  data_packets :: int
  end_received :: bool
  interval_sec :: "int option"

text \<open>The lines the session prints that carry decoded values.\<close>

datatype log_line =
    Notif "byte list"
  | Header_received "int option"
  | Progress nat
  | End_received "int option"
  | No_packets
  | Timeout_waiting
  | Already_synced
  | Saved int
  | Nothing_to_save

text \<open>
  The variables shared by \<open>download_data\<close> and its nested handler: the closure
  variables \<open>transfer_complete\<close> and \<open>last_packet_time\<close>, the globals
  \<open>transfer_stats\<close> and \<open>received_records\<close>, the printed lines, and the writes
  attempted on the control characteristic.
\<close>

record session =
  transfer_complete :: bool
  last_packet_time :: real
  stats :: transfer_stats
  received_records :: "sensor_record list"
  printed :: "log_line list"
  control_writes :: "byte list list"

text \<open>
  One notification: the event-loop time at which the handler runs, the wall clock
  (milliseconds) read while decoding record \<open>i\<close> of the frame, and the bytes.
\<close>

record frame =
  arrival :: real
  wallclock :: "nat \<Rightarrow> int"
  payload :: "byte list"

text \<open>
  The body of \<open>for i in range(count)\<close> in the DATA branch: the list argument holds the
  values of \<open>i\<close> still to run, \<open>offset\<close> advances by 6 per decoded record, and the
  first record that does not fit ends the loop (\<open>break\<close>).
\<close>

fun decode_records ::
  "int \<Rightarrow> (nat \<Rightarrow> int) \<Rightarrow> byte list \<Rightarrow> nat \<Rightarrow> nat list \<Rightarrow> nat
     \<Rightarrow> sensor_record list \<Rightarrow> sensor_record list" where
  "decode_records start_seq clock data count [] offset recs = recs"
| "decode_records start_seq clock data count (i # rest) offset recs =
     (case parse_sensor_record data offset of
        Some record \<Rightarrow>
          decode_records start_seq clock data count rest (offset + 6)
            (recs @ [raw_record.extend record
                       (sensor_record.fields (start_seq + int i)
                          (clock i - (int count - 1 - int i) * 30000))])
      | None \<Rightarrow> recs)"

definition notification_handler :: "int \<Rightarrow> frame \<Rightarrow> session \<Rightarrow> session" where
  "notification_handler start_seq fr s =
     (let data = payload fr in
      if length data = 0 then s
      else
        let s1 = s\<lparr>last_packet_time := arrival fr, printed := printed s @ [Notif data]\<rparr>;
            packet_type = uint (data ! 0)
        in
          if packet_type = PACKET_TYPE_HEADER then
            (if length data \<ge> 3 then
               let interval = parse_uint16_be data 1
               in s1\<lparr>stats := (stats s1)\<lparr>header_received := True, interval_sec := interval\<rparr>,
                      printed := printed s1 @ [Header_received interval]\<rparr>
             else s1)
          else if packet_type = PACKET_TYPE_DATA then
            (if length data \<ge> 5 then
               let count = unat (data ! 3);
                   st = (stats s1)\<lparr>data_packets := data_packets (stats s1) + 1,
                                    total_records := total_records (stats s1) + int count\<rparr>;
                   recs = decode_records start_seq (wallclock fr) data count [0..<count] 5
                            (received_records s1);
                   s2 = s1\<lparr>stats := st, received_records := recs\<rparr>
               in if data_packets st mod 10 = 0
                  then s2\<lparr>printed := printed s2 @ [Progress (length recs)]\<rparr>
                  else s2
             else s1)
          else if packet_type = PACKET_TYPE_END then
            (if length data \<ge> 2 then
               let total_sent = parse_uint16_be data 1
               in s1\<lparr>stats := (stats s1)\<lparr>end_received := True\<rparr>,
                      transfer_complete := True,
                      printed := printed s1 @ [End_received total_sent]\<rparr>
             else s1)
          else s1)"

section \<open>Waiting loop\<close>

definition idle_timeout :: real where "idle_timeout = 3"
definition timeout :: real where "timeout = 20"

text \<open>
  One pass of \<open>while True\<close>: the notifications delivered during
  \<open>await asyncio.sleep(0.1)\<close>, then the event-loop time read after it.
\<close>

record tick =
  arrived :: "frame list"
  now :: real

datatype loop_step = Continue session | Break session

definition deliver :: "int \<Rightarrow> frame list \<Rightarrow> session \<Rightarrow> session" where
  "deliver start_seq frs s = foldl (\<lambda>s fr. notification_handler start_seq fr s) s frs"

definition poll_step :: "int \<Rightarrow> real \<Rightarrow> tick \<Rightarrow> session \<Rightarrow> loop_step" where
  "poll_step start_seq start_time tk s0 =
     (let s = deliver start_seq (arrived tk) s0 in
      if transfer_complete s then Break s
      else if now tk - last_packet_time s > idle_timeout \<and> data_packets (stats s) > 0 then
        Break (s\<lparr>printed := printed s @ [No_packets], transfer_complete := True\<rparr>)
      else if now tk - start_time > timeout then
        Break (s\<lparr>printed := printed s @ [Timeout_waiting],
                  control_writes := control_writes s @ [[word_of_int CMD_STOP_TRANSFER]]\<rparr>)
      else Continue s)"

text \<open>
  The loop over the observed passes. \<open>None\<close>: the observation ended while the loop was
  still waiting.
\<close>

fun poll_loop :: "int \<Rightarrow> real \<Rightarrow> tick list \<Rightarrow> session \<Rightarrow> session option" where
  "poll_loop start_seq start_time [] s = None"
| "poll_loop start_seq start_time (tk # tks) s =
     (case poll_step start_seq start_time tk s of
        Break s' \<Rightarrow> Some s'
      | Continue s' \<Rightarrow> poll_loop start_seq start_time tks s')"


section \<open>Storage\<close>

text \<open>A row of table \<open>records\<close>; the table has \<open>UNIQUE(mac, seq)\<close>.\<close>

record db_row =
  row_id :: nat
  mac :: string
  db_seq :: int
  sample_ts_ms :: int
  rssi :: int
  temp_x100 :: int
  press_pa10 :: int
  hum_x100 :: int
  battery_mv :: int
  imported_at_ms :: int

text \<open>A row of table \<open>sync_state\<close>, whose primary key is the device address.\<close>

record sync_row =
  last_synced_seq :: int
  last_sync_time :: int
  total_synced :: int

record database =
  records :: "db_row list"
  next_id :: nat
  sync_state :: "string \<rightharpoonup> sync_row"

definition init_db :: database where
  "init_db = \<lparr>records = [], next_id = 1, sync_state = Map.empty\<rparr>"

text \<open>\<open>get_sync_state(mac)\<close>: the stored row, or the defaults of a first synchronisation.\<close>

definition get_sync_state :: "database \<Rightarrow> string \<Rightarrow> sync_row" where
  "get_sync_state db m =
     (case sync_state db m of
        Some row \<Rightarrow> row
      | None \<Rightarrow> \<lparr>last_synced_seq = - 1, last_sync_time = 0, total_synced = 0\<rparr>)"

text \<open>
  \<open>update_sync_state(mac, last_synced_seq, imported_count)\<close>: \<open>INSERT OR REPLACE\<close> of
  the row for \<open>mac\<close>; \<open>now_ms\<close> is the clock reading.
\<close>

definition update_sync_state :: "database \<Rightarrow> string \<Rightarrow> int \<Rightarrow> int \<Rightarrow> int \<Rightarrow> database" where
  "update_sync_state db m new_seq imported_count now_ms =
     db\<lparr>sync_state := (sync_state db)(m \<mapsto>
          \<lparr>last_synced_seq = new_seq,
           last_sync_time = now_ms,
           total_synced =
             (case sync_state db m of Some row \<Rightarrow> total_synced row | None \<Rightarrow> 0)
               + imported_count\<rparr>)\<rparr>"

text \<open>
  Python floats are IEEE 754 doubles. \<open>py_float x\<close> is the double nearest to the real
  \<open>x\<close>, ties to the even significand: the magnitude is scaled by powers of two into
  \<open>[2^52, 2^53)\<close>, rounded to an integer and scaled back. The scaling covers the
  normal range of doubles, which holds every value the protocol can produce (tenths
  between -3276.8 and 6553.5 and their products with 100 and 1000). A float field of a
  record, held in the model as the real \<open>x\<close>, is \<open>py_float x\<close> in the program, and
  the product of two floats is the \<open>py_float\<close> of the real product.
\<close>

definition round_half_even :: "real \<Rightarrow> int" where
  "round_half_even y =
     (let m = \<lfloor>y\<rfloor>; d = y - of_int m in
      if d < 1 / 2 then m else if d > 1 / 2 then m + 1 else if even m then m else m + 1)"

fun normalise :: "nat \<Rightarrow> real \<Rightarrow> real \<Rightarrow> real \<times> real" where
  "normalise 0 y sc = (y, sc)"
| "normalise (Suc n) y sc =
     (if y < 2 ^ 52 then normalise n (y * 2) (sc * 2)
      else if y \<ge> 2 ^ 53 then normalise n (y / 2) (sc / 2)
      else (y, sc))"

definition py_float :: "real \<Rightarrow> real" where
  "py_float x =
     (if x = 0 then 0
      else let p = normalise 1100 \<bar>x\<bar> 1
           in sgn x * of_int (round_half_even (fst p)) / snd p)"

text \<open>Python's \<open>int(x)\<close> on a float: truncation towards zero.\<close>

definition py_int :: "real \<Rightarrow> int" where
  "py_int x = (if x \<ge> 0 then \<lfloor>x\<rfloor> else \<lceil>x\<rceil>)"

text \<open>
  One \<open>INSERT OR IGNORE INTO records\<close> on a connection whose \<open>total_changes\<close> counter
  is the second component: a row whose \<open>(mac, seq)\<close> is already stored is ignored,
  leaving the rows and the counter as they are; otherwise the row is appended and the
  counter grows by one. The \<open>AUTOINCREMENT\<close> id is drawn before the uniqueness test, so
  an ignored insert uses up an id as well.
\<close>

definition insert_or_ignore :: "db_row \<Rightarrow> database \<times> nat \<Rightarrow> database \<times> nat" where
  "insert_or_ignore row c =
     (let db = fst c; total_changes = snd c in
      if \<exists>r \<in> set (records db). mac r = mac row \<and> db_seq r = db_seq row
      then (db\<lparr>next_id := next_id db + 1\<rparr>, total_changes)
      else (db\<lparr>records := records db @ [row\<lparr>row_id := next_id db\<rparr>],
               next_id := next_id db + 1\<rparr>,
            total_changes + 1))"

text \<open>
  The body of \<open>for record in records\<close> in \<open>insert_records\<close>. The state is the
  database, the connection's \<open>total_changes\<close> and the local \<open>inserted\<close>. The
  \<open>except\<close> branch of the body is entered only when the storage call raises, which
  needs a value outside SQLite's 64-bit integers; sequence numbers (32 bits in the
  specification), timestamps and samples stay far within them, and the branch is not
  part of the model.
\<close>

fun insert_loop ::
  "string \<Rightarrow> int \<Rightarrow> int \<Rightarrow> sensor_record list \<Rightarrow> database \<times> nat \<times> int
     \<Rightarrow> database \<times> nat \<times> int" where
  "insert_loop m rssi_v now_ms [] st = st"
| "insert_loop m rssi_v now_ms (record # rest) (db, total_changes, inserted) =
     (let row = \<lparr>row_id = 0, mac = m, db_seq = seq record,
                 sample_ts_ms = timestamp_ms record, rssi = rssi_v,
                 temp_x100 = py_int (py_float (py_float (temp_c record) * 100)),
                 press_pa10 = press_kpa record * 100,
                 hum_x100 = humidity_pct record * 100,
                 battery_mv = py_int (py_float (py_float (battery_v record) * 1000)),
                 imported_at_ms = now_ms\<rparr>;
          c = insert_or_ignore row (db, total_changes)
      in insert_loop m rssi_v now_ms rest
           (fst c, snd c, if snd c > 0 then inserted + 1 else inserted))"

text \<open>
  \<open>insert_records(mac, records, rssi)\<close>: the new database and the returned count. The
  connection is opened by the call, so its \<open>total_changes\<close> starts at 0.
\<close>

definition insert_records ::
  "database \<Rightarrow> string \<Rightarrow> sensor_record list \<Rightarrow> int \<Rightarrow> int \<Rightarrow> database \<times> int" where
  "insert_records db m recs rssi_v now_ms =
     (if recs = [] then (db, 0)
      else
        let r = insert_loop m rssi_v now_ms recs (db, 0, 0)
        in (fst r, snd (snd r)))"


section \<open>Download session\<close>

text \<open>
  What the transport and the clocks supply to one call of \<open>download_data\<close>: the
  device address, whether the control and data-transfer characteristics were found, the
  bytes read from the status characteristic (\<open>None\<close>: the characteristic is missing or
  the read failed), the event-loop time when the handler is set up, the notifications
  delivered between subscribing and the start of the waiting loop, the time at which
  the loop starts, the observed passes of the loop, the notifications delivered after
  the loop and before the subscription ends, and the wall clock read by the two storage
  calls. Writes and subscriptions on the transport are taken to succeed.
\<close>

record transport =
  device_address :: string
  control_found :: bool
  data_transfer_found :: bool
  status_read :: "byte list option"
  setup_time :: real
  early :: "frame list"
  start_time :: real
  ticks :: "tick list"
  trailing :: "frame list"
  insert_now_ms :: int
  update_now_ms :: int

text \<open>\<open>get_storage_status(client)\<close>.\<close>

definition get_storage_status :: "transport \<Rightarrow> status option" where
  "get_storage_status tr =
     (case status_read tr of None \<Rightarrow> None | Some data \<Rightarrow> parse_status data)"

text \<open>The state set by \<open>Reset state\<close> and by the handler set-up.\<close>

definition reset_state :: "real \<Rightarrow> session" where
  "reset_state t =
     \<lparr>transfer_complete = False,
      last_packet_time = t,
      stats = \<lparr>header_received = False, total_records = 0, data_packets = 0,
               end_received = False, interval_sec = Some 0\<rparr>,
      received_records = [],
      printed = [],
      control_writes = []\<rparr>"

text \<open>\<open>max(received_records, key=lambda r: r['seq'])\<close>: the first record of greatest \<open>seq\<close>.\<close>

fun max_by_seq :: "sensor_record \<Rightarrow> sensor_record list \<Rightarrow> sensor_record" where
  "max_by_seq best [] = best"
| "max_by_seq best (r # rs) = max_by_seq (if seq r > seq best then r else best) rs"

text \<open>The result of a call: the returned boolean, the database and the session state.\<close>

record download_result =
  success :: bool
  db_after :: database
  final :: session

text \<open>
  The part of \<open>download_data\<close> after the waiting loop: the notifications that still
  arrive before \<open>stop_notify\<close> completes, then the storage calls and the summary.
\<close>

definition save_received :: "transport \<Rightarrow> database \<Rightarrow> int \<Rightarrow> session \<Rightarrow> download_result" where
  "save_received tr db start_seq s0 =
     (let s = deliver start_seq (trailing tr) s0 in
      case received_records s of
        [] \<Rightarrow>
          \<lparr>success = False, db_after = db,
           final = s\<lparr>printed := printed s @ [Nothing_to_save]\<rparr>\<rparr>
      | r # rs \<Rightarrow>
          let ins = insert_records db (device_address tr) (r # rs) (- 50) (insert_now_ms tr);
              last_record = max_by_seq r rs;
              new_last_synced = seq last_record;
              db2 = update_sync_state (fst ins) (device_address tr) new_last_synced
                      (int (length (r # rs))) (update_now_ms tr)
          in \<lparr>success = True, db_after = db2,
              final = s\<lparr>printed := printed s @ [Saved (snd ins)]\<rparr>\<rparr>)"

text \<open>
  The part of \<open>download_data\<close> from the handler set-up to the start of the waiting
  loop: the notifications that arrive while subscribing, the START command with the
  start index, and \<open>last_packet_time = start_time\<close>.
\<close>

definition start_transfer :: "transport \<Rightarrow> int \<Rightarrow> session" where
  "start_transfer tr start_index =
     (let start_seq = start_index;
          s1 = deliver start_seq (early tr) (reset_state (setup_time tr));
          start_cmd = word_of_int CMD_START_TRANSFER # encode_uint16_be start_index
      in s1\<lparr>control_writes := control_writes s1 @ [start_cmd],
             last_packet_time := start_time tr\<rparr>)"

text \<open>
  \<open>download_data(client)\<close> on database \<open>db\<close>. \<open>None\<close>: the observed passes of the
  waiting loop ended before the loop did. A status whose \<open>total\<close> is \<open>None\<close> would make
  the subtraction raise, which the function's handler turns into \<open>False\<close>.
\<close>

definition download_data :: "transport \<Rightarrow> database \<Rightarrow> download_result option" where
  "download_data tr db =
     (let s0 = reset_state (setup_time tr) in
      if \<not> control_found tr \<or> \<not> data_transfer_found tr then
        Some \<lparr>success = False, db_after = db, final = s0\<rparr>
      else
        case get_storage_status tr of
          None \<Rightarrow> Some \<lparr>success = False, db_after = db, final = s0\<rparr>
        | Some initial_status \<Rightarrow>
           (case total initial_status of
              None \<Rightarrow> Some \<lparr>success = False, db_after = db, final = s0\<rparr>
            | Some device_total \<Rightarrow>
               (let st = get_sync_state db (device_address tr);
                    app_last_synced = max (last_synced_seq st) (- 1);
                    start_index = app_last_synced + 1;
                    records_to_download = device_total - start_index
                in
                  if records_to_download \<le> 0 then
                    Some \<lparr>success = True, db_after = db,
                          final = s0\<lparr>printed := [Already_synced]\<rparr>\<rparr>
                  else
                    case poll_loop start_index (start_time tr) (ticks tr)
                           (start_transfer tr start_index) of
                      None \<Rightarrow> None
                    | Some s3 \<Rightarrow> Some (save_received tr db start_index s3))))"

section \<open>Notions used to state the properties\<close>

text \<open>Big-endian 16-bit values of two bytes, unsigned and two's complement.\<close>

definition be_u16 :: "byte \<Rightarrow> byte \<Rightarrow> int" where
  "be_u16 hi lo = 256 * uint hi + uint lo"

definition be_i16 :: "byte \<Rightarrow> byte \<Rightarrow> int" where
  "be_i16 hi lo = (let v = be_u16 hi lo in if v \<ge> 32768 then v - 65536 else v)"

text \<open>The sample described by the six bytes at \<open>offset\<close>.\<close>

definition record_at :: "byte list \<Rightarrow> nat \<Rightarrow> raw_record" where
  "record_at data offset =
     \<lparr>temp_c = of_int (be_i16 (data ! offset) (data ! (offset + 1))) / 10,
      press_kpa = be_u16 (data ! (offset + 2)) (data ! (offset + 3)),
      humidity_pct = uint (data ! (offset + 4)),
      battery_v = of_int (uint (data ! (offset + 5))) / 10,
      temp_raw = be_i16 (data ! offset) (data ! (offset + 1)),
      press_raw = be_u16 (data ! (offset + 2)) (data ! (offset + 3)),
      hum_raw = uint (data ! (offset + 4)),
      bat_raw = uint (data ! (offset + 5))\<rparr>"

text \<open>Record \<open>i\<close> of a DATA frame, as the handler stores it.\<close>

definition sample_at :: "int \<Rightarrow> (nat \<Rightarrow> int) \<Rightarrow> byte list \<Rightarrow> nat \<Rightarrow> nat \<Rightarrow> sensor_record" where
  "sample_at start_seq clock data count i =
     raw_record.extend (record_at data (5 + 6 * i))
       (sensor_record.fields (start_seq + int i) (clock i - (int count - 1 - int i) * 30000))"

text \<open>The resume computation of \<open>download_data\<close>, as the pair it derives.\<close>

definition resume_point :: "sync_row \<Rightarrow> int \<Rightarrow> int \<times> int" where
  "resume_point st device_total =
     (let app_last_synced = max (last_synced_seq st) (- 1);
          start_index = app_last_synced + 1;
          records_to_download = device_total - start_index
      in (start_index, records_to_download))"

text \<open>The state after the given passes of the waiting loop, when none of them ends it.\<close>

fun passes :: "int \<Rightarrow> real \<Rightarrow> tick list \<Rightarrow> session \<Rightarrow> session option" where
  "passes start_seq t0 [] s = Some s"
| "passes start_seq t0 (tk # tks) s =
     (case poll_step start_seq t0 tk s of
        Continue s' \<Rightarrow> passes start_seq t0 tks s'
      | Break s' \<Rightarrow> None)"

text \<open>Number of stored rows with the key \<open>(m, q)\<close>, and the table's \<open>UNIQUE(mac, seq)\<close>.\<close>

definition stored_count :: "database \<Rightarrow> string \<Rightarrow> int \<Rightarrow> nat" where
  "stored_count db m q = length (filter (\<lambda>r. mac r = m \<and> db_seq r = q) (records db))"

definition unique_keys :: "database \<Rightarrow> bool" where
  "unique_keys db = distinct (map (\<lambda>r. (mac r, db_seq r)) (records db))"

text \<open>
  A non-empty frame the handler cannot decode: an unknown packet type, or a frame too
  short for its type.
\<close>

definition undecodable :: "byte list \<Rightarrow> bool" where
  "undecodable data =
     (data \<noteq> [] \<and>
      (let t = uint (data ! 0) in
         (t = PACKET_TYPE_HEADER \<and> length data < 3)
       \<or> (t = PACKET_TYPE_DATA \<and> length data < 5)
       \<or> (t = PACKET_TYPE_END \<and> length data < 2)
       \<or> t > PACKET_TYPE_END))"

text \<open>
  A pass of the waiting loop during which undecodable frames keep arriving, the last of
  them within the idle window of the time the pass reads.
\<close>

definition busy_tick :: "tick \<Rightarrow> bool" where
  "busy_tick tk =
     (arrived tk \<noteq> [] \<and> list_all (\<lambda>fr. undecodable (payload fr)) (arrived tk)
      \<and> now tk - arrival (last (arrived tk)) \<le> idle_timeout)"

text \<open>
  Two facts that hold of a session throughout: its records are numbered from
  \<open>start_seq\<close> upwards, and it holds records only if it has counted a DATA frame.
\<close>

definition numbered_from :: "int \<Rightarrow> session \<Rightarrow> bool" where
  "numbered_from a s = list_all (\<lambda>r. a \<le> seq r) (received_records s)"

definition packets_counted :: "session \<Rightarrow> bool" where
  "packets_counted s =
     (0 \<le> data_packets (stats s) \<and> (received_records s \<noteq> [] \<longrightarrow> 0 < data_packets (stats s)))"

section \<open>Concrete inputs\<close>

text \<open>
  Scenario C of the specification: the DATA frame
  \<open>01 00 00 02 00 01 2C 03 96 32 01 2A 03 95 33\<close>, which declares two records.
\<close>

definition scenario_C_frame :: frame where
  "scenario_C_frame =
     \<lparr>arrival = 1, wallclock = int,
      payload = [0x01, 0x00, 0x00, 0x02, 0x00, 0x01, 0x2C, 0x03, 0x96, 0x32, 0x01,
                 0x2A, 0x03, 0x95, 0x33]\<rparr>"

text \<open>A DATA frame of 11 bytes that declares and carries one record.\<close>

definition one_record_frame :: frame where
  "one_record_frame =
     \<lparr>arrival = 1, wallclock = int,
      payload = [0x01, 0x00, 0x00, 0x01, 0x00, 0x01, 0x2C, 0x03, 0x96, 0x32, 0x21]\<rparr>"

text \<open>A DATA frame of 17 bytes that declares and carries two records.\<close>

definition two_record_frame :: frame where
  "two_record_frame =
     \<lparr>arrival = 1, wallclock = int,
      payload = [0x01, 0x00, 0x00, 0x02, 0x00, 0x01, 0x2C, 0x03, 0x96, 0x32, 0x21,
                 0xFF, 0xF6, 0x03, 0x95, 0x33, 0x20]\<rparr>"

text \<open>END frames of three bytes, two bytes and one byte.\<close>

definition end_frame :: frame where
  "end_frame = \<lparr>arrival = 2, wallclock = int, payload = [0x02, 0x00, 0x07]\<rparr>"

definition short_end_frame :: frame where
  "short_end_frame = \<lparr>arrival = 2, wallclock = int, payload = [0x02, 0x07]\<rparr>"

definition bare_end_frame :: frame where
  "bare_end_frame = \<lparr>arrival = 2, wallclock = int, payload = [0x02]\<rparr>"

text \<open>A decoded record with sequence number \<open>q\<close>, and a device address.\<close>

definition example_record :: "int \<Rightarrow> sensor_record" where
  "example_record q =
     \<lparr>temp_c = 30, press_kpa = 918, humidity_pct = 50, battery_v = 1 / 10,
      temp_raw = 300, press_raw = 918, hum_raw = 50, bat_raw = 1,
      seq = q, timestamp_ms = 1000\<rparr>"

definition example_mac :: string where
  "example_mac = ''C0:FF:EE:00:00:01''"

text \<open>
  A transport on which both characteristics are found, the status read returns the given
  bytes and the waiting loop makes the given passes; nothing arrives outside the loop.
\<close>

definition example_transport :: "byte list \<Rightarrow> tick list \<Rightarrow> transport" where
  "example_transport status_bytes tks =
     \<lparr>device_address = example_mac, control_found = True, data_transfer_found = True,
      status_read = Some status_bytes, setup_time = 0, early = [], start_time = 1,
      ticks = tks, trailing = [], insert_now_ms = 1000, update_now_ms = 1001\<rparr>"

text \<open>A database whose sync state for the device was committed with the given value.\<close>

definition synced_db :: "int \<Rightarrow> database" where
  "synced_db q = update_sync_state init_db example_mac q 3 100"

text \<open>
  Passes of the waiting loop: one during which a two-record frame arrives, and one read
  more than three time units later during which nothing arrives.
\<close>

definition receiving_tick :: tick where
  "receiving_tick = \<lparr>arrived = [two_record_frame], now = 11 / 10\<rparr>"

definition idle_tick :: tick where
  "idle_tick = \<lparr>arrived = [], now = 42 / 10\<rparr>"

text \<open>
  A two-byte frame of unknown packet type arriving at the given time, and three passes of
  the waiting loop during each of which such a frame arrives; the last pass is read more
  than twenty time units after a start at time 1.
\<close>

definition noise_frame :: "real \<Rightarrow> frame" where
  "noise_frame t = \<lparr>arrival = t, wallclock = int, payload = [0x09, 0x00]\<rparr>"

definition busy_ticks :: "tick list" where
  "busy_ticks =
     [\<lparr>arrived = [noise_frame 2], now = 3\<rparr>,
      \<lparr>arrived = [noise_frame 10], now = 12\<rparr>,
      \<lparr>arrived = [noise_frame 21], now = 22\<rparr>]"

text \<open>
  Two more DATA frames of one record each, with raw temperatures 250 and 200 where
  \<open>one_record_frame\<close> has 300, and a pass of the waiting loop during which all three
  frames arrive.
\<close>

definition record_250_frame :: frame where
  "record_250_frame =
     \<lparr>arrival = 1, wallclock = int,
      payload = [0x01, 0x00, 0x00, 0x01, 0x00, 0x00, 0xFA, 0x03, 0x96, 0x32, 0x21]\<rparr>"

definition record_200_frame :: frame where
  "record_200_frame =
     \<lparr>arrival = 1, wallclock = int,
      payload = [0x01, 0x00, 0x00, 0x01, 0x00, 0x00, 0xC8, 0x03, 0x96, 0x32, 0x21]\<rparr>"

definition three_frames_tick :: tick where
  "three_frames_tick =
     \<lparr>arrived = [one_record_frame, record_250_frame, record_200_frame], now = 11 / 10\<rparr>"

section \<open>Properties\<close>

subsection \<open>Codec arithmetic\<close>

lemma uint_byte_bounds: "0 \<le> uint (b::byte) \<and> uint b < 256"
  using uint_lt2p [of b] by simp

lemma shift_or_eq: "push_bit 8 (uint (hi::byte)) OR uint (lo::byte) = 256 * uint hi + uint lo"
proof -
  have "push_bit 8 (uint hi) AND uint lo = 0"
    by (rule bit_eqI) (auto simp: bit_simps dest: bit_imp_le_length)
  then have "push_bit 8 (uint hi) + uint lo = push_bit 8 (uint hi) OR uint lo"
    by (rule disjunctive_add_eq_or)
  then show ?thesis
    by (simp add: push_bit_eq_mult)
qed

lemma uint_cat16: "uint (word_cat (hi::byte) (lo::byte) :: 16 word) = 256 * uint hi + uint lo"
proof -
  have lo: "take_bit 8 (uint lo) = uint lo"
    using uint_byte_bounds [of lo] by (simp add: take_bit_int_eq_self)
  have "uint (word_cat hi lo :: 16 word) = (uint lo + push_bit 8 (uint hi)) mod 2 ^ 16"
    unfolding word_cat_eq' uint_word_of_int concat_bit_eq by (simp add: lo)
  then have "uint (word_cat hi lo :: 16 word) = (uint lo + 256 * uint hi) mod 65536"
    by (simp add: push_bit_eq_mult mult.commute)
  moreover have "0 \<le> uint lo + 256 * uint hi" "uint lo + 256 * uint hi < 65536"
    using uint_byte_bounds [of lo] uint_byte_bounds [of hi] by auto
  ultimately show ?thesis
    by simp
qed

lemma sint16: "sint (w :: 16 word) = (if uint w \<ge> 32768 then uint w - 65536 else uint w)"
proof -
  have b: "0 \<le> uint w" "uint w < 65536"
    using uint_lt2p [of w] by auto
  have s: "sint w = (uint w + 32768) mod 65536 - 32768"
    using int_word_sint [of "uint w", where 'a = 16] by simp
  show ?thesis
  proof (cases "uint w \<ge> 32768")
    case True
    have e: "uint w + 32768 = uint w - 32768 + 65536"
      by simp
    have "(uint w + 32768) mod 65536 = (uint w - 32768 + 65536) mod 65536"
      by (simp only: e)
    also have "\<dots> = (uint w - 32768) mod 65536"
      by (simp only: mod_add_self2)
    also have "\<dots> = uint w - 32768"
      using True b by (simp add: mod_pos_pos_trivial)
    finally show ?thesis
      using True s by simp
  next
    case False
    then have "(uint w + 32768) mod 65536 = uint w + 32768"
      using b by (simp add: mod_pos_pos_trivial)
    then show ?thesis
      using False s by simp
  qed
qed

lemma unpack_be_i16_eq: "unpack_be_i16 [hi, lo] = Some (be_i16 hi lo)"
  by (simp add: unpack_be_i16_def be_i16_def be_u16_def sint16 uint_cat16 Let_def)

lemma parse_uint16_be_eq:
  "parse_uint16_be data offset =
     (if offset + 2 \<le> length data
      then Some (be_u16 (data ! offset) (data ! (offset + 1))) else None)"
  by (simp add: parse_uint16_be_def be_u16_def shift_or_eq)

lemma take2_drop:
  assumes "offset + 2 \<le> length data"
  shows "take 2 (drop offset data) = [data ! offset, data ! (offset + 1)]"
proof -
  have "length (take 2 (drop offset data)) = 2"
    using assms by simp
  moreover have "take 2 (drop offset data) ! 0 = data ! offset"
    using assms by simp
  moreover have "take 2 (drop offset data) ! 1 = data ! (offset + 1)"
    using assms by simp
  ultimately show ?thesis
    by (metis (no_types, lifting) One_nat_def Suc_1 length_0_conv length_Suc_conv nth_Cons_0 nth_Cons_Suc)
qed

lemma parse_sensor_record_eq:
  "parse_sensor_record data offset =
     (if offset + 6 \<le> length data then Some (record_at data offset) else None)"
  by (simp add: parse_sensor_record_def take2_drop unpack_be_i16_eq parse_uint16_be_eq
      record_at_def Let_def numeral_3_eq_3)

lemma seq_sample_at [simp]: "seq (sample_at a clock data count i) = a + int i"
  by (simp add: sample_at_def raw_record.defs sensor_record.defs)

lemma decode_records_upt:
  "i0 \<le> count \<Longrightarrow>
   decode_records a clock data count [i0..<count] (5 + 6 * i0) recs =
     recs @ map (sample_at a clock data count)
              [i0..<max i0 (min count ((length data - 5) div 6))]"
proof (induction "count - i0" arbitrary: i0 recs)
  case 0
  then show ?case by simp
next
  case (Suc k)
  then have lt: "i0 < count" and k: "k = count - Suc i0"
    by auto
  have upt: "[i0..<count] = i0 # [Suc i0..<count]"
    using lt by (simp add: upt_conv_Cons)
  show ?case
  proof (cases "5 + 6 * i0 + 6 \<le> length data")
    case True
    then have avail: "Suc i0 \<le> (length data - 5) div 6"
      by linarith
    have step: "decode_records a clock data count [Suc i0..<count] (5 + 6 * Suc i0)
                  (recs @ [sample_at a clock data count i0]) =
                (recs @ [sample_at a clock data count i0]) @
                  map (sample_at a clock data count)
                    [Suc i0..<max (Suc i0) (min count ((length data - 5) div 6))]"
      using Suc.hyps(1) [OF k] lt by simp
    have idx: "[i0..<max i0 (min count ((length data - 5) div 6))] =
               i0 # [Suc i0..<max (Suc i0) (min count ((length data - 5) div 6))]"
      using lt avail by (simp add: upt_conv_Cons max_def min_def)
    have off: "5 + 6 * i0 + 6 = 5 + 6 * Suc i0"
      by simp
    show ?thesis
      using True step
      by (simp add: upt parse_sensor_record_eq idx sample_at_def off del: upt_Suc)
  next
    case False
    then have "(length data - 5) div 6 \<le> i0"
      by linarith
    then have "max i0 (min count ((length data - 5) div 6)) = i0"
      by simp
    then show ?thesis
      using False by (simp add: upt parse_sensor_record_eq)
  qed
qed

lemma decode_records_frame:
  "decode_records a clock data count [0..<count] 5 recs =
     recs @ map (sample_at a clock data count) [0..<min count ((length data - 5) div 6)]"
  using decode_records_upt [of 0 count a clock data recs] by simp

subsection \<open>Effect of one notification\<close>

lemma handler_empty: "payload fr = [] \<Longrightarrow> notification_handler a fr s = s"
  by (simp add: notification_handler_def)

lemma handler_data_records:
  assumes "length (payload fr) \<ge> 5" and "uint (payload fr ! 0) = PACKET_TYPE_DATA"
  shows "received_records (notification_handler a fr s) =
           received_records s @
             map (sample_at a (wallclock fr) (payload fr) (unat (payload fr ! 3)))
               [0..<min (unat (payload fr ! 3)) ((length (payload fr) - 5) div 6)]"
  using assms
  by (simp add: notification_handler_def Let_def decode_records_frame
      PACKET_TYPE_HEADER_def PACKET_TYPE_DATA_def)

lemma handler_data_complete:
  assumes "length (payload fr) \<ge> 5" and "uint (payload fr ! 0) = PACKET_TYPE_DATA"
  shows "transfer_complete (notification_handler a fr s) = transfer_complete s"
  using assms
  by (simp add: notification_handler_def Let_def PACKET_TYPE_HEADER_def PACKET_TYPE_DATA_def)

subsection \<open>Records decoded from one DATA frame\<close>

text \<open>
  Claim C5. A DATA frame of at least five bytes that declares \<open>record_count\<close> in byte 3
  adds to the received records as many records as fit, never more than declared: their
  number is the smaller of \<open>record_count\<close> and the number of whole six-byte records
  after the five-byte head, hence \<open>record_count\<close> itself when
  \<open>5 + 6 * record_count\<close> does not exceed the frame length. A truncated trailing record
  ends the decoding of the frame; the records before it are kept and the transfer is
  not marked complete by it.
\<close>
theorem data_frame_decoded_count:
  assumes "length (payload fr) \<ge> 5" and "uint (payload fr ! 0) = PACKET_TYPE_DATA"
  shows "\<exists>new. received_records (notification_handler a fr s) = received_records s @ new
           \<and> length new \<le> unat (payload fr ! 3)
           \<and> length new = min (unat (payload fr ! 3)) ((length (payload fr) - 5) div 6)
           \<and> (5 + 6 * unat (payload fr ! 3) \<le> length (payload fr)
                \<longrightarrow> length new = unat (payload fr ! 3))
           \<and> transfer_complete (notification_handler a fr s) = transfer_complete s"
proof -
  let ?count = "unat (payload fr ! 3)"
  let ?new = "map (sample_at a (wallclock fr) (payload fr) ?count)
                [0..<min ?count ((length (payload fr) - 5) div 6)]"
  have "5 + 6 * ?count \<le> length (payload fr) \<Longrightarrow> ?count \<le> (length (payload fr) - 5) div 6"
    by linarith
  then have "5 + 6 * ?count \<le> length (payload fr) \<longrightarrow> length ?new = ?count"
    by simp
  moreover have "length ?new \<le> ?count"
    by simp
  ultimately show ?thesis
    using handler_data_records [OF assms, of a s] handler_data_complete [OF assms, of a s]
    by (intro exI [of _ ?new]) simp
qed

theorem data_frame_decoded_count_witness:
  "length (payload scenario_C_frame) \<ge> 5
   \<and> uint (payload scenario_C_frame ! 0) = PACKET_TYPE_DATA
   \<and> length (received_records (notification_handler 0 scenario_C_frame (reset_state 0))) = 1
   \<and> length (payload two_record_frame) \<ge> 5
   \<and> uint (payload two_record_frame ! 0) = PACKET_TYPE_DATA
   \<and> 5 + 6 * unat (payload two_record_frame ! 3) \<le> length (payload two_record_frame)
   \<and> length (received_records (notification_handler 0 two_record_frame (reset_state 0))) = 2"
  using data_frame_decoded_count [of scenario_C_frame 0 "reset_state 0"]
    data_frame_decoded_count [of two_record_frame 0 "reset_state 0"]
  by (simp add: scenario_C_frame_def two_record_frame_def PACKET_TYPE_DATA_def reset_state_def)

lemma sample_at_fields:
  "temp_c (sample_at a clock data count i) = temp_c (record_at data (5 + 6 * i))"
  "press_kpa (sample_at a clock data count i) = press_kpa (record_at data (5 + 6 * i))"
  "humidity_pct (sample_at a clock data count i) = humidity_pct (record_at data (5 + 6 * i))"
  "battery_v (sample_at a clock data count i) = battery_v (record_at data (5 + 6 * i))"
  by (simp_all add: sample_at_def raw_record.defs sensor_record.defs)

subsection \<open>Decoding of one record\<close>

text \<open>
  Claim C9, amended. Record \<open>k\<close> of a DATA frame, when its six bytes at offset
  \<open>5 + 6 * k\<close> lie within the frame, is stored with the temperature
  \<open>be_i16 / 10\<close> of bytes 0 and 1, the pressure \<open>be_u16\<close> of bytes 2 and 3 taken
  as kPa, the humidity of byte 4 taken as percent and the battery voltage
  \<open>byte 5 / 10\<close>. The 15-byte frame of Scenario C declares two records and carries
  one and four bytes of a second: it decodes to exactly one record, numbered
  \<open>start_seq\<close>, of 30.0 degrees, 918 kPa, 50 percent and 0.1 V.
\<close>

theorem record_decoding:
  assumes "length (payload fr) \<ge> 5" and "uint (payload fr ! 0) = PACKET_TYPE_DATA"
    and "k < unat (payload fr ! 3)" and "5 + 6 * k + 6 \<le> length (payload fr)"
  shows "(let r = received_records (notification_handler a fr s) ! (length (received_records s) + k);
              d = payload fr; off = 5 + 6 * k
          in temp_c r = of_int (be_i16 (d ! off) (d ! (off + 1))) / 10
           \<and> press_kpa r = be_u16 (d ! (off + 2)) (d ! (off + 3))
           \<and> humidity_pct r = uint (d ! (off + 4))
           \<and> battery_v r = of_int (uint (d ! (off + 5))) / 10
           \<and> seq r = a + int k)
         \<and> (\<exists>r. received_records (notification_handler a scenario_C_frame s) =
                   received_records s @ [r]
                \<and> seq r = a \<and> temp_c r = 30 \<and> press_kpa r = 918
                \<and> humidity_pct r = 50 \<and> battery_v r = 1 / 10)"
proof -
  let ?count = "unat (payload fr ! 3)"
  have "Suc k \<le> (length (payload fr) - 5) div 6"
    using assms(4) by linarith
  then have k: "k < min ?count ((length (payload fr) - 5) div 6)"
    using assms(3) by simp
  have nth: "received_records (notification_handler a fr s) ! (length (received_records s) + k) =
             sample_at a (wallclock fr) (payload fr) ?count k"
    using k by (simp add: handler_data_records [OF assms(1,2)] nth_append)
  have general: "(let r = received_records (notification_handler a fr s) ! (length (received_records s) + k);
              d = payload fr; off = 5 + 6 * k
          in temp_c r = of_int (be_i16 (d ! off) (d ! (off + 1))) / 10
           \<and> press_kpa r = be_u16 (d ! (off + 2)) (d ! (off + 3))
           \<and> humidity_pct r = uint (d ! (off + 4))
           \<and> battery_v r = of_int (uint (d ! (off + 5))) / 10
           \<and> seq r = a + int k)"
    by (simp add: Let_def nth sample_at_fields record_at_def)
  have c1: "length (payload scenario_C_frame) \<ge> 5"
    and c2: "uint (payload scenario_C_frame ! 0) = PACKET_TYPE_DATA"
    by (simp_all add: scenario_C_frame_def PACKET_TYPE_DATA_def)
  have recs: "received_records (notification_handler a scenario_C_frame s) =
        received_records s @ [sample_at a int (payload scenario_C_frame) 2 0]"
    by (simp add: handler_data_records [OF c1 c2]) (simp add: scenario_C_frame_def)
  have vals: "temp_c (sample_at a int (payload scenario_C_frame) 2 0) = 30"
    "press_kpa (sample_at a int (payload scenario_C_frame) 2 0) = 918"
    "humidity_pct (sample_at a int (payload scenario_C_frame) 2 0) = 50"
    "battery_v (sample_at a int (payload scenario_C_frame) 2 0) = 1 / 10"
    by (simp_all add: sample_at_fields record_at_def scenario_C_frame_def be_i16_def be_u16_def)
  show ?thesis
    using general recs vals by simp
qed

theorem record_decoding_witness:
  "length (payload two_record_frame) \<ge> 5
   \<and> uint (payload two_record_frame ! 0) = PACKET_TYPE_DATA
   \<and> (1::nat) < unat (payload two_record_frame ! 3)
   \<and> 5 + 6 * 1 + 6 \<le> length (payload two_record_frame)
   \<and> (let r = received_records (notification_handler 7 two_record_frame (reset_state 0)) ! 1
       in temp_c r = - 1 \<and> press_kpa r = 917 \<and> humidity_pct r = 51 \<and> battery_v r = 32 / 10
          \<and> seq r = 8)"
  using record_decoding [of two_record_frame 1 7 "reset_state 0"]
  by (simp add: two_record_frame_def PACKET_TYPE_DATA_def reset_state_def be_i16_def be_u16_def
      Let_def)

text \<open>
  As stated, with two records for Scenario C, the claim fails: the frame has 15 bytes and
  declares two records, and the handler decodes one.
\<close>

theorem scenario_C_decodes_one_record:
  "length (received_records (notification_handler 0 scenario_C_frame (reset_state 0))) = 1
   \<and> unat (payload scenario_C_frame ! 3) = 2
   \<and> length (payload scenario_C_frame) = 15"
  by (simp add: notification_handler_def scenario_C_frame_def reset_state_def Let_def
      PACKET_TYPE_HEADER_def PACKET_TYPE_DATA_def decode_records_frame)

subsection \<open>Sequence numbers across DATA frames\<close>

text \<open>
  Claim C1. The handler numbers the records of a DATA frame \<open>start_seq + i\<close> with
  \<open>i\<close> the position within that frame, so the numbering starts again at
  \<open>start_seq\<close> with every frame: two one-record frames of one session both get
  \<open>seq = 10\<close>, and two two-record frames get 10, 11, 10, 11. The sequence numbers of a
  session are not strictly increasing across frames.
\<close>

theorem seq_restarts_with_each_frame:
  "map seq (received_records (deliver 10 [one_record_frame, one_record_frame] (reset_state 0)))
     = [10, 10]
   \<and> map seq (received_records (deliver 10 [two_record_frame, two_record_frame] (reset_state 0)))
     = [10, 11, 10, 11]"
proof -
  have one: "length (payload one_record_frame) \<ge> 5"
    "uint (payload one_record_frame ! 0) = PACKET_TYPE_DATA"
    by (simp_all add: one_record_frame_def PACKET_TYPE_DATA_def)
  have two: "length (payload two_record_frame) \<ge> 5"
    "uint (payload two_record_frame ! 0) = PACKET_TYPE_DATA"
    by (simp_all add: two_record_frame_def PACKET_TYPE_DATA_def)
  have n1: "[0..<min (unat (payload one_record_frame ! 3))
                 ((length (payload one_record_frame) - 5) div 6)] = [0]"
    by (simp add: one_record_frame_def)
  have n2: "[0..<min (unat (payload two_record_frame ! 3))
                 ((length (payload two_record_frame) - 5) div 6)] = [0, 1]"
    by (simp add: two_record_frame_def upt_conv_Cons)
  show ?thesis
    by (simp add: deliver_def handler_data_records [OF one] handler_data_records [OF two] n1 n2
        reset_state_def)
qed

subsection \<open>END frames\<close>

lemma handler_end_long:
  assumes "length (payload fr) \<ge> 3" and "uint (payload fr ! 0) = PACKET_TYPE_END"
  shows "notification_handler a fr s =
           s\<lparr>last_packet_time := arrival fr,
             stats := (stats s)\<lparr>end_received := True\<rparr>,
             transfer_complete := True,
             printed := printed s @ [Notif (payload fr),
               End_received (Some (be_u16 (payload fr ! 1) (payload fr ! 2)))]\<rparr>"
proof -
  have "payload fr \<noteq> []"
    using assms(1) by auto
  then show ?thesis
    using assms
    by (simp add: notification_handler_def Let_def parse_uint16_be_eq numeral_2_eq_2
        PACKET_TYPE_HEADER_def PACKET_TYPE_DATA_def PACKET_TYPE_END_def)
qed

lemma handler_end_bare:
  assumes "length (payload fr) = 1" and "uint (payload fr ! 0) = PACKET_TYPE_END"
  shows "notification_handler a fr s =
           s\<lparr>last_packet_time := arrival fr, printed := printed s @ [Notif (payload fr)]\<rparr>"
proof -
  have "payload fr \<noteq> []"
    using assms(1) by auto
  then show ?thesis
    using assms
    by (simp add: notification_handler_def Let_def
        PACKET_TYPE_HEADER_def PACKET_TYPE_DATA_def PACKET_TYPE_END_def)
qed

text \<open>
  Claim C6, amended. An END frame (first byte 2) of at least three bytes is decoded to
  \<open>total_sent = be_u16\<close> of bytes 1 and 2 and marks the transfer complete. An END
  frame shorter than two bytes is dropped: the handler only notes its arrival, and
  neither the completion flag nor the statistics nor the received records change.
\<close>

theorem end_frame_decoding:
  assumes "payload fr \<noteq> []" and "uint (payload fr ! 0) = PACKET_TYPE_END"
  shows "(length (payload fr) \<ge> 3 \<longrightarrow>
            printed (notification_handler a fr s) =
              printed s @ [Notif (payload fr),
                           End_received (Some (be_u16 (payload fr ! 1) (payload fr ! 2)))]
            \<and> transfer_complete (notification_handler a fr s)
            \<and> end_received (stats (notification_handler a fr s)))
       \<and> (length (payload fr) < 2 \<longrightarrow>
            transfer_complete (notification_handler a fr s) = transfer_complete s
            \<and> stats (notification_handler a fr s) = stats s
            \<and> received_records (notification_handler a fr s) = received_records s
            \<and> printed (notification_handler a fr s) = printed s @ [Notif (payload fr)])"
proof -
  have "length (payload fr) < 2 \<Longrightarrow> length (payload fr) = 1"
    using assms(1) by (cases "payload fr") auto
  then show ?thesis
    using assms(2) by (auto simp: handler_end_long handler_end_bare)
qed

theorem end_frame_decoding_witness:
  "payload end_frame \<noteq> [] \<and> uint (payload end_frame ! 0) = PACKET_TYPE_END
   \<and> length (payload end_frame) \<ge> 3
   \<and> printed (notification_handler 0 end_frame (reset_state 0)) =
       [Notif [0x02, 0x00, 0x07], End_received (Some 7)]
   \<and> transfer_complete (notification_handler 0 end_frame (reset_state 0))
   \<and> payload bare_end_frame \<noteq> [] \<and> uint (payload bare_end_frame ! 0) = PACKET_TYPE_END
   \<and> length (payload bare_end_frame) < 2
   \<and> \<not> transfer_complete (notification_handler 0 bare_end_frame (reset_state 0))"
  using end_frame_decoding [of end_frame 0 "reset_state 0"]
    end_frame_decoding [of bare_end_frame 0 "reset_state 0"]
  by (simp add: end_frame_def bare_end_frame_def PACKET_TYPE_END_def reset_state_def be_u16_def)

text \<open>
  As stated, for every END frame of at least two bytes, the claim fails at two bytes: the
  frame \<open>02 07\<close> marks the transfer complete, but there is no second byte of a
  \<open>total_sent\<close> and the handler reports \<open>None\<close>.
\<close>

theorem two_byte_end_frame_has_no_total:
  "printed (notification_handler 0 short_end_frame (reset_state 0)) =
     [Notif [0x02, 0x07], End_received None]
   \<and> transfer_complete (notification_handler 0 short_end_frame (reset_state 0))
   \<and> length (payload short_end_frame) = 2
   \<and> uint (payload short_end_frame ! 0) = PACKET_TYPE_END"
  by (simp add: notification_handler_def short_end_frame_def reset_state_def Let_def
      parse_uint16_be_def PACKET_TYPE_HEADER_def PACKET_TYPE_DATA_def PACKET_TYPE_END_def)

subsection \<open>Storage of records\<close>

lemma insert_or_ignore_unique:
  "unique_keys (fst c) \<Longrightarrow> unique_keys (fst (insert_or_ignore row c))"
  by (auto simp: insert_or_ignore_def unique_keys_def Let_def)

lemma insert_or_ignore_stored:
  "\<exists>r \<in> set (records (fst (insert_or_ignore row c))). mac r = mac row \<and> db_seq r = db_seq row"
  by (auto simp: insert_or_ignore_def Let_def)

lemma insert_or_ignore_keeps:
  "r \<in> set (records (fst c)) \<Longrightarrow> r \<in> set (records (fst (insert_or_ignore row c)))"
  by (auto simp: insert_or_ignore_def Let_def)

lemma insert_or_ignore_sync:
  "sync_state (fst (insert_or_ignore row c)) = sync_state (fst c)"
  by (auto simp: insert_or_ignore_def Let_def)

lemma insert_loop_unique:
  "unique_keys (fst st) \<Longrightarrow> unique_keys (fst (insert_loop m rssi_v now_ms recs st))"
proof (induction recs arbitrary: st)
  case Nil
  then show ?case by simp
next
  case (Cons rcd rest)
  obtain db total_changes inserted where st: "st = (db, total_changes, inserted)"
    by (cases st) auto
  show ?case
    using Cons.prems
    by (simp add: st Let_def Cons.IH insert_or_ignore_unique)
qed

lemma insert_loop_keeps:
  "r \<in> set (records (fst st)) \<Longrightarrow>
   r \<in> set (records (fst (insert_loop m rssi_v now_ms recs st)))"
proof (induction recs arbitrary: st)
  case Nil
  then show ?case by simp
next
  case (Cons rcd rest)
  obtain db total_changes inserted where st: "st = (db, total_changes, inserted)"
    by (cases st) auto
  show ?case
    using Cons.prems
    by (simp add: st Let_def Cons.IH insert_or_ignore_keeps)
qed

lemma insert_loop_sync:
  "sync_state (fst (insert_loop m rssi_v now_ms recs st)) = sync_state (fst st)"
proof (induction recs arbitrary: st)
  case Nil
  then show ?case by simp
next
  case (Cons rcd rest)
  obtain db total_changes inserted where st: "st = (db, total_changes, inserted)"
    by (cases st) auto
  show ?case
    by (simp add: st Let_def Cons.IH insert_or_ignore_sync)
qed

lemma insert_loop_stored:
  "rcd \<in> set recs \<Longrightarrow>
   \<exists>r \<in> set (records (fst (insert_loop m rssi_v now_ms recs st))).
      mac r = m \<and> db_seq r = seq rcd"
proof (induction recs arbitrary: st)
  case Nil
  then show ?case by simp
next
  case (Cons x rest)
  obtain db total_changes inserted where st: "st = (db, total_changes, inserted)"
    by (cases st) auto
  let ?row = "\<lparr>row_id = 0, mac = m, db_seq = seq x,
                 sample_ts_ms = timestamp_ms x, rssi = rssi_v,
                 temp_x100 = py_int (py_float (py_float (temp_c x) * 100)),
                 press_pa10 = press_kpa x * 100,
                 hum_x100 = humidity_pct x * 100,
                 battery_mv = py_int (py_float (py_float (battery_v x) * 1000)),
                 imported_at_ms = now_ms\<rparr>"
  let ?c = "insert_or_ignore ?row (db, total_changes)"
  let ?st' = "(fst ?c, snd ?c, if snd ?c > 0 then inserted + 1 else inserted)"
  have unfold: "insert_loop m rssi_v now_ms (x # rest) st = insert_loop m rssi_v now_ms rest ?st'"
    by (simp add: st Let_def)
  show ?case
  proof (cases "rcd = x")
    case True
    obtain r where "r \<in> set (records (fst ?c))" "mac r = m" "db_seq r = seq x"
      using insert_or_ignore_stored [of ?row "(db, total_changes)"] by auto
    then have "r \<in> set (records (fst (insert_loop m rssi_v now_ms rest ?st')))"
      "mac r = m" "db_seq r = seq rcd"
      using insert_loop_keeps [of r ?st'] True by auto
    then show ?thesis
      unfolding unfold by blast
  next
    case False
    then have "rcd \<in> set rest"
      using Cons.prems by simp
    then show ?thesis
      unfolding unfold by (rule Cons.IH)
  qed
qed

lemma insert_records_unique:
  "unique_keys db \<Longrightarrow> unique_keys (fst (insert_records db m recs rssi_v now_ms))"
  using insert_loop_unique [of "(db, 0, 0)" m rssi_v now_ms recs]
  by (simp add: insert_records_def Let_def)

lemma insert_records_keeps:
  "r \<in> set (records db) \<Longrightarrow> r \<in> set (records (fst (insert_records db m recs rssi_v now_ms)))"
  using insert_loop_keeps [of r "(db, 0, 0)" m rssi_v now_ms recs]
  by (simp add: insert_records_def Let_def)

lemma insert_records_stored:
  "rcd \<in> set recs \<Longrightarrow>
   \<exists>r \<in> set (records (fst (insert_records db m recs rssi_v now_ms))).
      mac r = m \<and> db_seq r = seq rcd"
  using insert_loop_stored [of rcd recs m rssi_v now_ms "(db, 0, 0)"]
  by (auto simp: insert_records_def Let_def)

lemma insert_records_sync:
  "sync_state (fst (insert_records db m recs rssi_v now_ms)) = sync_state db"
  using insert_loop_sync [of m rssi_v now_ms recs "(db, 0, 0)"]
  by (simp add: insert_records_def Let_def)

lemma filter_distinct_key:
  "distinct (map f xs) \<Longrightarrow> x \<in> set xs \<Longrightarrow> filter (\<lambda>y. f y = f x) xs = [x]"
proof (induction xs)
  case Nil
  then show ?case by simp
next
  case (Cons y ys)
  show ?case
  proof (cases "x = y")
    case True
    have "\<forall>z \<in> set ys. f z \<noteq> f y"
      using Cons.prems(1) by (auto simp: image_iff)
    then have "filter (\<lambda>z. f z = f y) ys = []"
      by (simp add: filter_empty_conv)
    then show ?thesis
      using True by simp
  next
    case False
    then have x: "x \<in> set ys"
      using Cons.prems(2) by simp
    then have "f y \<noteq> f x"
      using Cons.prems(1) by auto
    moreover have "filter (\<lambda>y. f y = f x) ys = [x]"
      using Cons.IH Cons.prems(1) x by simp
    ultimately show ?thesis
      by simp
  qed
qed

lemma unique_stored_count:
  assumes "unique_keys db" and "r \<in> set (records db)" and "mac r = m" and "db_seq r = q"
  shows "stored_count db m q = 1"
proof -
  have "filter (\<lambda>y. (mac y, db_seq y) = (mac r, db_seq r)) (records db) = [r]"
    using assms(1,2) unfolding unique_keys_def by (rule filter_distinct_key)
  then show ?thesis
    using assms(3,4) by (simp add: stored_count_def)
qed

text \<open>
  Claim C8. On a table that satisfies \<open>UNIQUE(mac, seq)\<close>, after two calls of
  \<open>insert_records\<close> for a device, every sequence number that occurs in either batch,
  however often and whether in one batch or in both, is stored in exactly one row; and the
  table still satisfies the constraint.
\<close>

theorem insert_idempotent_on_key:
  assumes "unique_keys db"
    and "q \<in> seq ` (set recs1 \<union> set recs2)"
  shows "stored_count
           (fst (insert_records (fst (insert_records db m recs1 rssi1 now1)) m recs2 rssi2 now2))
           m q = 1
         \<and> unique_keys
           (fst (insert_records (fst (insert_records db m recs1 rssi1 now1)) m recs2 rssi2 now2))"
proof -
  let ?db1 = "fst (insert_records db m recs1 rssi1 now1)"
  let ?db2 = "fst (insert_records ?db1 m recs2 rssi2 now2)"
  have u: "unique_keys ?db2"
    using assms(1) by (intro insert_records_unique)
  obtain rcd where rec: "rcd \<in> set recs1 \<union> set recs2" "seq rcd = q"
    using assms(2) by auto
  have "\<exists>r \<in> set (records ?db2). mac r = m \<and> db_seq r = q"
  proof (cases "rcd \<in> set recs2")
    case True
    then show ?thesis
      using insert_records_stored [of rcd recs2 ?db1 m rssi2 now2] rec(2) by simp
  next
    case False
    then have "rcd \<in> set recs1"
      using rec(1) by simp
    then obtain r where "r \<in> set (records ?db1)" "mac r = m" "db_seq r = q"
      using insert_records_stored [of rcd recs1 db m rssi1 now1] rec(2) by auto
    then show ?thesis
      using insert_records_keeps [of r ?db1 m recs2 rssi2 now2] by blast
  qed
  then show ?thesis
    using u unique_stored_count by blast
qed

theorem insert_idempotent_on_key_witness:
  "unique_keys init_db
   \<and> 1 \<in> seq ` (set [example_record 0, example_record 1, example_record 1]
                 \<union> set [example_record 1, example_record 2])
   \<and> stored_count
        (fst (insert_records
               (fst (insert_records init_db example_mac
                      [example_record 0, example_record 1, example_record 1] (- 50) 10))
               example_mac [example_record 1, example_record 2] (- 50) 20))
        example_mac 1 = 1"
  using insert_idempotent_on_key [of init_db 1
      "[example_record 0, example_record 1, example_record 1]"
      "[example_record 1, example_record 2]" example_mac "- 50" 10 "- 50" 20]
  by (simp add: unique_keys_def init_db_def example_record_def)

subsection \<open>The count returned by \<open>insert_records\<close>\<close>

text \<open>
  Claim C7. \<open>insert_records\<close> counts a record as inserted when the connection's
  \<open>total_changes\<close> is positive, and that counter never falls back: once one row has
  been inserted, every later record of the batch is counted, stored or ignored. For
  two records with the same sequence number on an empty table the call returns 2 and
  stores one row; a second call with the same batch returns 0.
\<close>

theorem insert_records_count_exceeds_rows:
  "snd (insert_records init_db example_mac [example_record 5, example_record 5] (- 50) 10) = 2
   \<and> length (records (fst (insert_records init_db example_mac
                 [example_record 5, example_record 5] (- 50) 10))) = 1
   \<and> snd (insert_records
            (fst (insert_records init_db example_mac
                   [example_record 5, example_record 5] (- 50) 10))
            example_mac [example_record 5, example_record 5] (- 50) 20) = 0"
  by (simp add: insert_records_def insert_or_ignore_def init_db_def example_record_def Let_def)

subsection \<open>Resume point\<close>

lemma download_data_resume:
  assumes "control_found tr" and "data_transfer_found tr"
    and "get_storage_status tr = Some status0" and "total status0 = Some device_total"
  shows "download_data tr db =
           (let rp = resume_point (get_sync_state db (device_address tr)) device_total in
            if snd rp \<le> 0 then
              Some \<lparr>success = True, db_after = db,
                    final = (reset_state (setup_time tr))\<lparr>printed := [Already_synced]\<rparr>\<rparr>
            else
              case poll_loop (fst rp) (start_time tr) (ticks tr) (start_transfer tr (fst rp)) of
                None \<Rightarrow> None
              | Some s3 \<Rightarrow> Some (save_received tr db (fst rp) s3))"
  using assms by (simp add: download_data_def resume_point_def Let_def split: option.split)

text \<open>
  Claim C2, amended. With persisted \<open>last_synced_seq = S\<close> and device total \<open>T\<close> the
  resume computation yields \<open>start_index = max(S, -1) + 1\<close> and
  \<open>to_download = T - max(S, -1) - 1\<close>, which is \<open>S + 1\<close> and \<open>T - S - 1\<close> whenever
  \<open>S\<close> is at least \<open>-1\<close>; and whenever \<open>to_download\<close> is not positive, a session
  that reached the computation returns success, leaves the database as it was and
  writes nothing to the device.
\<close>

theorem resume_point_value:
  "resume_point st device_total =
     (max (last_synced_seq st) (- 1) + 1, device_total - max (last_synced_seq st) (- 1) - 1)
   \<and> (last_synced_seq st \<ge> - 1 \<longrightarrow>
        resume_point st device_total =
          (last_synced_seq st + 1, device_total - last_synced_seq st - 1))
   \<and> (control_found tr \<and> data_transfer_found tr
        \<and> get_storage_status tr = Some status0 \<and> total status0 = Some device_total
        \<and> snd (resume_point (get_sync_state db (device_address tr)) device_total) \<le> 0
      \<longrightarrow> (\<exists>res. download_data tr db = Some res \<and> success res \<and> db_after res = db
                \<and> control_writes (final res) = []
                \<and> received_records (final res) = []))"
proof -
  have a: "resume_point st device_total =
     (max (last_synced_seq st) (- 1) + 1, device_total - max (last_synced_seq st) (- 1) - 1)"
    by (simp add: resume_point_def Let_def)
  have b: "last_synced_seq st \<ge> - 1 \<longrightarrow>
        resume_point st device_total =
          (last_synced_seq st + 1, device_total - last_synced_seq st - 1)"
    by (simp add: resume_point_def Let_def max_def)
  have c: "control_found tr \<and> data_transfer_found tr
        \<and> get_storage_status tr = Some status0 \<and> total status0 = Some device_total
        \<and> snd (resume_point (get_sync_state db (device_address tr)) device_total) \<le> 0
      \<longrightarrow> (\<exists>res. download_data tr db = Some res \<and> success res \<and> db_after res = db
                \<and> control_writes (final res) = []
                \<and> received_records (final res) = [])"
    by (auto simp: download_data_resume Let_def reset_state_def)
  show ?thesis
    using a b c by blast
qed

theorem resume_point_value_witness:
  "last_synced_seq (get_sync_state (synced_db 2) example_mac) \<ge> - 1
   \<and> resume_point (get_sync_state (synced_db 2) example_mac) 3 = (3, 0)
   \<and> control_found (example_transport [0, 3, 0, 0] [])
   \<and> data_transfer_found (example_transport [0, 3, 0, 0] [])
   \<and> get_storage_status (example_transport [0, 3, 0, 0] []) =
         Some \<lparr>total = Some 3, last_sent = Some 0\<rparr>
   \<and> snd (resume_point (get_sync_state (synced_db 2) example_mac) 3) \<le> 0
   \<and> (\<exists>res. download_data (example_transport [0, 3, 0, 0] []) (synced_db 2) = Some res
          \<and> success res \<and> db_after res = synced_db 2)"
  using resume_point_value [of "get_sync_state (synced_db 2) example_mac" 3
      "example_transport [0, 3, 0, 0] []" "\<lparr>total = Some 3, last_sent = Some 0\<rparr>" "synced_db 2"]
  by (auto simp: synced_db_def get_sync_state_def update_sync_state_def init_db_def
      example_transport_def get_storage_status_def parse_status_def parse_uint16_be_def
      resume_point_def Let_def)

text \<open>
  As stated, for every persisted \<open>S\<close>, the claim fails below \<open>-1\<close>: with
  \<open>S = -5\<close> and a device total of 10 the computation yields \<open>(0, 10)\<close>, not
  \<open>(-4, 14)\<close>.
\<close>

theorem resume_below_minus_one:
  "last_synced_seq (get_sync_state (synced_db (- 5)) example_mac) = - 5
   \<and> resume_point (get_sync_state (synced_db (- 5)) example_mac) 10 = (0, 10)
   \<and> resume_point (get_sync_state (synced_db (- 5)) example_mac) 10
       \<noteq> (last_synced_seq (get_sync_state (synced_db (- 5)) example_mac) + 1,
           10 - last_synced_seq (get_sync_state (synced_db (- 5)) example_mac) - 1)"
  by (simp add: synced_db_def get_sync_state_def update_sync_state_def init_db_def
      resume_point_def Let_def)

subsection \<open>What the handler and the waiting loop preserve\<close>

lemma handler_control_writes:
  "control_writes (notification_handler a fr s) = control_writes s"
  by (simp add: notification_handler_def Let_def)

lemma handler_complete_mono:
  "transfer_complete s \<Longrightarrow> transfer_complete (notification_handler a fr s)"
  by (simp add: notification_handler_def Let_def)

lemma handler_not_data:
  assumes "\<not> (length (payload fr) \<ge> 5 \<and> uint (payload fr ! 0) = PACKET_TYPE_DATA)"
  shows "received_records (notification_handler a fr s) = received_records s"
    and "data_packets (stats (notification_handler a fr s)) = data_packets (stats s)"
  using assms
  by (auto simp: notification_handler_def Let_def PACKET_TYPE_HEADER_def PACKET_TYPE_DATA_def
      PACKET_TYPE_END_def)

lemma handler_data_packets:
  assumes "length (payload fr) \<ge> 5" and "uint (payload fr ! 0) = PACKET_TYPE_DATA"
  shows "data_packets (stats (notification_handler a fr s)) = data_packets (stats s) + 1"
proof -
  have "payload fr \<noteq> []"
    using assms(1) by auto
  then show ?thesis
    using assms
    by (simp add: notification_handler_def Let_def PACKET_TYPE_HEADER_def PACKET_TYPE_DATA_def)
qed

text \<open>
  The invariant of a session: records are numbered from \<open>start_seq\<close> upwards, and
  records have been received only if a DATA frame has been counted.
\<close>

lemma handler_records_extend:
  "\<exists>new. received_records (notification_handler a fr s) = received_records s @ new
         \<and> (\<forall>r \<in> set new. a \<le> seq r)"
proof (cases "length (payload fr) \<ge> 5 \<and> uint (payload fr ! 0) = PACKET_TYPE_DATA")
  case True
  then show ?thesis
    using handler_data_records [of fr a s] by auto
next
  case False
  then show ?thesis
    using handler_not_data(1) [of fr a s] by simp
qed

lemma handler_packets_counted:
  assumes "0 \<le> data_packets (stats s)"
    and "received_records s \<noteq> [] \<longrightarrow> 0 < data_packets (stats s)"
  shows "0 \<le> data_packets (stats (notification_handler a fr s))
       \<and> (received_records (notification_handler a fr s) \<noteq> []
            \<longrightarrow> 0 < data_packets (stats (notification_handler a fr s)))"
proof (cases "length (payload fr) \<ge> 5 \<and> uint (payload fr ! 0) = PACKET_TYPE_DATA")
  case True
  then show ?thesis
    using handler_data_packets [of fr a s] assms(1) by simp
next
  case False
  then show ?thesis
    using handler_not_data [of fr a s] assms by simp
qed

lemma deliver_Nil [simp]: "deliver a [] s = s"
  by (simp add: deliver_def)

lemma deliver_Cons [simp]:
  "deliver a (fr # frs) s = deliver a frs (notification_handler a fr s)"
  by (simp add: deliver_def)

lemma deliver_control_writes: "control_writes (deliver a frs s) = control_writes s"
  by (induction frs arbitrary: s) (simp_all add: handler_control_writes)

lemma deliver_complete_mono: "transfer_complete s \<Longrightarrow> transfer_complete (deliver a frs s)"
  by (induction frs arbitrary: s) (simp_all add: handler_complete_mono)

lemma deliver_records_extend:
  "\<exists>new. received_records (deliver a frs s) = received_records s @ new
         \<and> (\<forall>r \<in> set new. a \<le> seq r)"
proof (induction frs arbitrary: s)
  case Nil
  then show ?case by simp
next
  case (Cons fr frs)
  obtain n1 where n1: "received_records (notification_handler a fr s) = received_records s @ n1"
    "\<forall>r \<in> set n1. a \<le> seq r"
    using handler_records_extend [of a fr s] by blast
  obtain n2 where n2: "received_records (deliver a frs (notification_handler a fr s)) =
      received_records (notification_handler a fr s) @ n2" "\<forall>r \<in> set n2. a \<le> seq r"
    using Cons.IH [of "notification_handler a fr s"] by blast
  show ?case
    using n1 n2 by (intro exI [of _ "n1 @ n2"]) auto
qed

lemma deliver_packets_counted:
  assumes "0 \<le> data_packets (stats s)"
    and "received_records s \<noteq> [] \<longrightarrow> 0 < data_packets (stats s)"
  shows "0 \<le> data_packets (stats (deliver a frs s))
       \<and> (received_records (deliver a frs s) \<noteq> [] \<longrightarrow> 0 < data_packets (stats (deliver a frs s)))"
  using assms
proof (induction frs arbitrary: s)
  case Nil
  then show ?case by simp
next
  case (Cons fr frs)
  show ?case
    using Cons.IH [of "notification_handler a fr s"]
      handler_packets_counted [OF Cons.prems, of a fr]
    by simp
qed

lemma deliver_numbered: "numbered_from a s \<Longrightarrow> numbered_from a (deliver a frs s)"
  using deliver_records_extend [of a frs s]
  by (auto simp: numbered_from_def list_all_iff)

lemma deliver_counted: "packets_counted s \<Longrightarrow> packets_counted (deliver a frs s)"
  using deliver_packets_counted [of s a frs]
  by (simp add: packets_counted_def)

lemma poll_step_Continue:
  assumes "poll_step a t0 tk s = Continue s'"
  shows "s' = deliver a (arrived tk) s"
    and "\<not> transfer_complete s'"
    and "\<not> (now tk - last_packet_time s' > idle_timeout \<and> data_packets (stats s') > 0)"
    and "\<not> now tk - t0 > timeout"
  using assms
  by (auto simp: poll_step_def Let_def split: if_splits)

lemma poll_step_Break:
  assumes "poll_step a t0 tk s = Break s'"
  shows "received_records s' = received_records (deliver a (arrived tk) s)"
    and "stats s' = stats (deliver a (arrived tk) s)"
    and "transfer_complete s' \<and> control_writes s' = control_writes s
         \<or> \<not> transfer_complete s' \<and> now tk - t0 > timeout
           \<and> control_writes s' = control_writes s @ [[word_of_int CMD_STOP_TRANSFER]]"
  using assms
  by (auto simp: poll_step_def Let_def deliver_control_writes split: if_splits)

lemma poll_step_numbered:
  assumes "numbered_from a s"
  shows "poll_step a t0 tk s = Continue s' \<Longrightarrow> numbered_from a s'"
    and "poll_step a t0 tk s = Break s' \<Longrightarrow> numbered_from a s'"
  using deliver_numbered [OF assms, of "arrived tk"] poll_step_Continue(1) [of a t0 tk s s']
    poll_step_Break(1) [of a t0 tk s s']
  by (auto simp: numbered_from_def)

lemma poll_loop_numbered:
  "numbered_from a s \<Longrightarrow> poll_loop a t0 tks s = Some s' \<Longrightarrow> numbered_from a s'"
proof (induction tks arbitrary: s)
  case Nil
  then show ?case by simp
next
  case (Cons tk tks)
  show ?case
  proof (cases "poll_step a t0 tk s")
    case (Continue s1)
    then show ?thesis
      using Cons poll_step_numbered(1) [of a s t0 tk s1] by simp
  next
    case (Break s1)
    then show ?thesis
      using Cons.prems poll_step_numbered(2) [of a s t0 tk s1] by simp
  qed
qed

lemma passes_counted:
  "packets_counted s \<Longrightarrow> passes a t0 tks s = Some s' \<Longrightarrow> packets_counted s'"
proof (induction tks arbitrary: s)
  case Nil
  then show ?case by simp
next
  case (Cons tk tks)
  show ?case
  proof (cases "poll_step a t0 tk s")
    case (Continue s1)
    then have "packets_counted s1"
      using poll_step_Continue(1) [OF Continue] deliver_counted [OF Cons.prems(1)] by simp
    then show ?thesis
      using Cons Continue by simp
  next
    case (Break s1)
    then show ?thesis
      using Cons.prems by simp
  qed
qed

lemma passes_control_writes:
  "passes a t0 tks s = Some s' \<Longrightarrow> control_writes s' = control_writes s"
proof (induction tks arbitrary: s)
  case Nil
  then show ?case by simp
next
  case (Cons tk tks)
  show ?case
  proof (cases "poll_step a t0 tk s")
    case (Continue s1)
    then have "control_writes s1 = control_writes s"
      using poll_step_Continue(1) [OF Continue] by (simp add: deliver_control_writes)
    then show ?thesis
      using Cons Continue by simp
  next
    case (Break s1)
    then show ?thesis
      using Cons.prems by simp
  qed
qed

lemma poll_loop_after_passes:
  "passes a t0 pre s = Some s1 \<Longrightarrow> poll_loop a t0 (pre @ tks) s = poll_loop a t0 tks s1"
proof (induction pre arbitrary: s)
  case Nil
  then show ?case by simp
next
  case (Cons tk pre)
  then show ?case
    by (cases "poll_step a t0 tk s") simp_all
qed

lemma reset_state_facts:
  "numbered_from a (reset_state t)" "packets_counted (reset_state t)"
  by (simp_all add: numbered_from_def packets_counted_def reset_state_def)

lemma start_transfer_facts:
  "numbered_from a (start_transfer tr a)" "packets_counted (start_transfer tr a)"
  "control_writes (start_transfer tr a) =
     [word_of_int CMD_START_TRANSFER # encode_uint16_be a]"
proof -
  let ?s1 = "deliver a (early tr) (reset_state (setup_time tr))"
  have "numbered_from a ?s1" "packets_counted ?s1"
    by (simp_all add: deliver_numbered deliver_counted reset_state_facts)
  then show "numbered_from a (start_transfer tr a)" "packets_counted (start_transfer tr a)"
    by (simp_all add: start_transfer_def Let_def numbered_from_def packets_counted_def)
  show "control_writes (start_transfer tr a) =
     [word_of_int CMD_START_TRANSFER # encode_uint16_be a]"
    by (simp add: start_transfer_def Let_def deliver_control_writes reset_state_def)
qed

lemma max_by_seq_in: "max_by_seq best rs \<in> set (best # rs)"
  by (induction rs arbitrary: best) (auto split: if_splits)

subsection \<open>Commit of the sync state\<close>

lemma get_after_update:
  "get_sync_state (update_sync_state db m q n t) m =
     \<lparr>last_synced_seq = q, last_sync_time = t,
      total_synced = total_synced (get_sync_state db m) + n\<rparr>"
  by (simp add: get_sync_state_def update_sync_state_def split: option.split)

lemma save_received_sync:
  assumes "numbered_from a s"
  shows "a \<le> last_synced_seq (get_sync_state (db_after (save_received tr db a s)) (device_address tr))
         \<or> db_after (save_received tr db a s) = db"
proof (cases "received_records (deliver a (trailing tr) s)")
  case Nil
  then show ?thesis
    by (simp add: save_received_def Let_def)
next
  case (Cons r rs)
  have "numbered_from a (deliver a (trailing tr) s)"
    using assms by (rule deliver_numbered)
  then have "\<forall>x \<in> set (r # rs). a \<le> seq x"
    using Cons by (simp add: numbered_from_def list_all_iff)
  then have "a \<le> seq (max_by_seq r rs)"
    using max_by_seq_in [of r rs] by blast
  then show ?thesis
    using Cons by (simp add: save_received_def Let_def get_after_update)
qed

text \<open>
  Claim C3, amended. A commit stores the committed \<open>last_synced_seq\<close> as it is, so a
  commit with a lower value lowers the persisted one, and it adds the session's count to
  \<open>total_synced\<close>. What does hold across sessions: the value a call of
  \<open>download_data\<close> commits is never below the persisted value the call started from,
  so no download session decreases the persisted \<open>last_synced_seq\<close>.
\<close>

theorem commit_overwrites_session_raises:
  "last_synced_seq (get_sync_state (update_sync_state db m q n t) m) = q
   \<and> total_synced (get_sync_state (update_sync_state db m q n t) m) =
       total_synced (get_sync_state db m) + n
   \<and> (download_data tr db = Some res \<longrightarrow>
        last_synced_seq (get_sync_state db (device_address tr))
          \<le> last_synced_seq (get_sync_state (db_after res) (device_address tr)))"
proof -
  let ?S = "last_synced_seq (get_sync_state db (device_address tr))"
  let ?a = "max ?S (- 1) + 1"
  have "?S \<le> last_synced_seq (get_sync_state (db_after res) (device_address tr))"
    if dl: "download_data tr db = Some res"
  proof (cases "db_after res = db")
    case True
    then show ?thesis by simp
  next
    case False
    then obtain s3 where res: "res = save_received tr db ?a s3"
      and loop: "poll_loop ?a (start_time tr) (ticks tr) (start_transfer tr ?a) = Some s3"
      using dl
      by (auto simp: download_data_def Let_def split: if_splits option.splits)
    have "numbered_from ?a s3"
      using start_transfer_facts(1) loop by (rule poll_loop_numbered)
    then have "?a \<le> last_synced_seq (get_sync_state (db_after res) (device_address tr))"
      using save_received_sync [of ?a s3 tr db] False res by auto
    then show ?thesis
      by simp
  qed
  then show ?thesis
    by (simp add: get_after_update)
qed

theorem commit_overwrites_session_raises_witness:
  "(\<exists>res. download_data (example_transport [0, 10, 0, 0] [receiving_tick, idle_tick])
            (synced_db 2) = Some res
       \<and> last_synced_seq (get_sync_state (synced_db 2) example_mac) = 2
       \<and> last_synced_seq (get_sync_state (db_after res) example_mac) = 4
       \<and> total_synced (get_sync_state (db_after res) example_mac) = 5)"
proof -
  let ?tr = "example_transport [0, 10, 0, 0] [receiving_tick, idle_tick]"
  have dl: "\<exists>res. download_data ?tr (synced_db 2) = Some res
       \<and> last_synced_seq (get_sync_state (db_after res) example_mac) = 4
       \<and> total_synced (get_sync_state (db_after res) example_mac) = 5"
    by (simp add: download_data_def example_transport_def synced_db_def get_storage_status_def
        parse_status_def parse_uint16_be_def get_sync_state_def update_sync_state_def
        init_db_def Let_def start_transfer_def reset_state_def poll_step_def
        receiving_tick_def idle_tick_def idle_timeout_def timeout_def
        notification_handler_def two_record_frame_def decode_records_frame
        PACKET_TYPE_HEADER_def PACKET_TYPE_DATA_def save_received_def
        insert_records_def insert_or_ignore_def upt_conv_Cons)
  then obtain res where res: "download_data ?tr (synced_db 2) = Some res"
    "last_synced_seq (get_sync_state (db_after res) example_mac) = 4"
    "total_synced (get_sync_state (db_after res) example_mac) = 5"
    by blast
  have "last_synced_seq (get_sync_state (synced_db 2) example_mac) = 2"
    by (simp add: synced_db_def get_after_update)
  moreover have "device_address ?tr = example_mac"
    by (simp add: example_transport_def)
  ultimately show ?thesis
    using res commit_overwrites_session_raises [of "synced_db 2" example_mac 2 3 100 ?tr res]
    by auto
qed

text \<open>
  As stated the claim fails: committing 5 over a persisted 10 leaves 5.
\<close>

theorem stale_commit_lowers_last_synced_seq:
  "last_synced_seq (get_sync_state (synced_db 10) example_mac) = 10
   \<and> last_synced_seq
       (get_sync_state (update_sync_state (synced_db 10) example_mac 5 1 200) example_mac) = 5"
  by (simp add: synced_db_def get_after_update)

subsection \<open>Completion by the idle window\<close>

lemma idle_pass_breaks:
  assumes "packets_counted s" and "arrived tk = []"
    and "now tk - last_packet_time s > idle_timeout" and "received_records s \<noteq> []"
  shows "\<exists>s'. poll_step a t0 tk s = Break s' \<and> transfer_complete s'
            \<and> control_writes s' = control_writes s
            \<and> received_records s' = received_records s"
  using assms
  by (auto simp: poll_step_def Let_def packets_counted_def)

lemma save_received_commits:
  assumes "received_records s \<noteq> []"
  shows "success (save_received tr db a s)"
    and "transfer_complete s \<Longrightarrow> transfer_complete (final (save_received tr db a s))"
    and "control_writes (final (save_received tr db a s)) = control_writes s"
    and "\<exists>more. received_records (final (save_received tr db a s)) = received_records s @ more"
    and "db_after (save_received tr db a s) =
           update_sync_state
             (fst (insert_records db (device_address tr)
                     (received_records (final (save_received tr db a s))) (- 50) (insert_now_ms tr)))
             (device_address tr)
             (seq (max_by_seq (hd (received_records (final (save_received tr db a s))))
                              (tl (received_records (final (save_received tr db a s))))))
             (int (length (received_records (final (save_received tr db a s)))))
             (update_now_ms tr)"
proof -
  let ?s = "deliver a (trailing tr) s"
  obtain more where more: "received_records ?s = received_records s @ more"
    using deliver_records_extend [of a "trailing tr" s] by blast
  then have "received_records ?s \<noteq> []"
    using assms by simp
  then obtain r rs where rrs: "received_records ?s = r # rs"
    by (auto simp: neq_Nil_conv)
  have fin: "final (save_received tr db a s) = ?s\<lparr>printed := printed ?s @
      [Saved (snd (insert_records db (device_address tr) (r # rs) (- 50) (insert_now_ms tr)))]\<rparr>"
    by (simp add: save_received_def Let_def rrs)
  show "success (save_received tr db a s)"
    by (simp add: save_received_def Let_def rrs)
  show "transfer_complete s \<Longrightarrow> transfer_complete (final (save_received tr db a s))"
    by (simp add: fin deliver_complete_mono)
  show "control_writes (final (save_received tr db a s)) = control_writes s"
    by (simp add: fin deliver_control_writes)
  show "\<exists>more. received_records (final (save_received tr db a s)) = received_records s @ more"
    using more by (simp add: fin)
  show "db_after (save_received tr db a s) =
           update_sync_state
             (fst (insert_records db (device_address tr)
                     (received_records (final (save_received tr db a s))) (- 50) (insert_now_ms tr)))
             (device_address tr)
             (seq (max_by_seq (hd (received_records (final (save_received tr db a s))))
                              (tl (received_records (final (save_received tr db a s))))))
             (int (length (received_records (final (save_received tr db a s)))))
             (update_now_ms tr)"
    by (simp add: fin rrs) (simp add: save_received_def Let_def rrs)
qed

lemma update_sync_state_records [simp]:
  "records (update_sync_state db m q n t) = records db"
  by (simp add: update_sync_state_def)

lemma normalise_unfold:
  "normalise n y sc =
     (if n = 0 then (y, sc)
      else if y < 2 ^ 52 then normalise (n - 1) (y * 2) (sc * 2)
      else if y \<ge> 2 ^ 53 then normalise (n - 1) (y / 2) (sc / 2)
      else (y, sc))"
  by (cases n) simp_all

text \<open>
  The stored hundredths follow the float arithmetic: 30.0 degrees are stored as 3000, and
  2.3 degrees, whose double lies below 2.3, as 229.
\<close>

lemma stored_hundredths:
  "py_int (py_float (py_float (300 / 10) * 100)) = 3000"
  "py_int (py_float (py_float (23 / 10) * 100)) = 229"
  "py_int (py_float (py_float (- 7 / 10) * 100)) = - 70"
  by (simp_all add: py_int_def py_float_def normalise_unfold round_half_even_def Let_def)

text \<open>
  The part of the idle-window completion that holds of every session. Let a session have
  started its transfer and made passes of the waiting loop none of which ended it, so
  that it is receiving in state \<open>s\<close> with at least one record. If the next pass sees
  no frame arrive and reads a time more than the idle window after the last frame, the
  session ends there: \<open>download_data\<close> returns success with the transfer marked
  complete, the only command written to the device is START (no STOP, hence no hard
  timeout), and the records held at that pass are among those handed to the storage
  calls.
\<close>

lemma idle_window_completes:
  assumes "control_found tr" and "data_transfer_found tr"
    and "get_storage_status tr = Some status0" and "total status0 = Some device_total"
    and "resume_point (get_sync_state db (device_address tr)) device_total = (start_seq, n)"
    and "0 < n"
    and "ticks tr = pre @ tk # post"
    and "passes start_seq (start_time tr) pre (start_transfer tr start_seq) = Some s"
    and "arrived tk = []"
    and "now tk - last_packet_time s > idle_timeout"
    and "received_records s \<noteq> []"
  shows "\<exists>res. download_data tr db = Some res
           \<and> success res
           \<and> transfer_complete (final res)
           \<and> control_writes (final res) =
               [word_of_int CMD_START_TRANSFER # encode_uint16_be start_seq]
           \<and> (\<exists>more. received_records (final res) = received_records s @ more)
           \<and> records (db_after res) =
               records (fst (insert_records db (device_address tr) (received_records (final res))
                              (- 50) (insert_now_ms tr)))"
proof -
  let ?t0 = "start_time tr"
  have counted: "packets_counted s"
    using start_transfer_facts(2) assms(8) by (rule passes_counted)
  obtain s' where step: "poll_step start_seq ?t0 tk s = Break s'"
    and s': "transfer_complete s'" "control_writes s' = control_writes s"
      "received_records s' = received_records s"
    using idle_pass_breaks [OF counted assms(9,10,11), of start_seq ?t0] by blast
  have loop: "poll_loop start_seq ?t0 (ticks tr) (start_transfer tr start_seq) = Some s'"
    using poll_loop_after_passes [OF assms(8), of "tk # post"] step
    by (simp add: assms(7))
  let ?res = "save_received tr db start_seq s'"
  have dl: "download_data tr db = Some ?res"
    using assms(5,6) loop
    by (simp add: download_data_resume [OF assms(1,2,3,4)] Let_def)
  have ne: "received_records s' \<noteq> []"
    using s'(3) assms(11) by simp
  have writes: "control_writes (final ?res) =
      [word_of_int CMD_START_TRANSFER # encode_uint16_be start_seq]"
    using save_received_commits(3) [OF ne, of tr db start_seq] s'(2)
      passes_control_writes [OF assms(8)] start_transfer_facts(3) [of tr start_seq]
    by simp
  obtain more where more: "received_records (final ?res) = received_records s @ more"
    using save_received_commits(4) [OF ne, of tr db start_seq] s'(3) by auto
  have db: "records (db_after ?res) =
               records (fst (insert_records db (device_address tr) (received_records (final ?res))
                              (- 50) (insert_now_ms tr)))"
    by (subst save_received_commits(5) [OF ne]) simp
  show ?thesis
    using dl save_received_commits(1) [OF ne, of tr db start_seq]
      save_received_commits(2) [OF ne s'(1), of tr db start_seq] writes more db
    by (intro exI [of _ ?res]) blast
qed

text \<open>
  Claim C4. A session that starts at sequence number 0 receives three DATA frames of one
  record each (raw temperatures 300, 250, 200); the next pass of the waiting loop sees no
  frame and reads a time more than the idle window after the last one. The session ends
  there as the claim says: success, the transfer marked complete, START the only command
  written. But the three records received are not all committed: the handler has numbered
  each of them 0, the store keeps the first (30.00 degrees) and ignores the other two,
  and the session reports three saved records.
\<close>

theorem idle_completion_commits_one_of_three:
  "arrived idle_tick = []
   \<and> (\<exists>s. passes 0 1 [three_frames_tick]
              (start_transfer (example_transport [0, 10, 0, 0] [three_frames_tick, idle_tick]) 0)
            = Some s
          \<and> length (received_records s) = 3
          \<and> now idle_tick - last_packet_time s > idle_timeout)
   \<and> (\<exists>res. download_data (example_transport [0, 10, 0, 0] [three_frames_tick, idle_tick])
               init_db = Some res
          \<and> success res \<and> transfer_complete (final res)
          \<and> control_writes (final res) = [[1, 0, 0]]
          \<and> map temp_raw (received_records (final res)) = [300, 250, 200]
          \<and> map seq (received_records (final res)) = [0, 0, 0]
          \<and> map db_seq (records (db_after res)) = [0]
          \<and> map temp_x100 (records (db_after res)) = [3000]
          \<and> last (printed (final res)) = Saved 3)"
proof -
  let ?tr = "example_transport [0, 10, 0, 0] [three_frames_tick, idle_tick]"
  let ?s = "deliver 0 [one_record_frame, record_250_frame, record_200_frame] (start_transfer ?tr 0)"
  let ?recs = "[sample_at 0 int (payload one_record_frame) 1 0,
                sample_at 0 int (payload record_250_frame) 1 0,
                sample_at 0 int (payload record_200_frame) 1 0]"
  have s: "transfer_complete ?s = False" "last_packet_time ?s = 1"
    "data_packets (stats ?s) = 3" "received_records ?s = ?recs"
    "control_writes ?s = [[1, 0, 0]]"
    by (simp_all add: example_transport_def start_transfer_def reset_state_def Let_def
        notification_handler_def one_record_frame_def record_250_frame_def record_200_frame_def
        decode_records_frame PACKET_TYPE_HEADER_def PACKET_TYPE_DATA_def upt_conv_Cons
        CMD_START_TRANSFER_def encode_uint16_be_def)
  have pre: "passes 0 1 [three_frames_tick] (start_transfer ?tr 0) = Some ?s"
    using s(1,2,3)
    by (simp add: poll_step_def Let_def three_frames_tick_def idle_timeout_def timeout_def)
  have idle: "arrived idle_tick = []" "now idle_tick - last_packet_time ?s > idle_timeout"
    using s(2) by (simp_all add: idle_tick_def idle_timeout_def)
  have loop: "poll_loop 0 1 [three_frames_tick, idle_tick] (start_transfer ?tr 0) =
      Some (?s\<lparr>printed := printed ?s @ [No_packets], transfer_complete := True\<rparr>)"
    using s(1,2,3)
    by (simp add: poll_step_def Let_def three_frames_tick_def idle_tick_def idle_timeout_def
        timeout_def)
  have h: "control_found ?tr" "data_transfer_found ?tr"
    "get_storage_status ?tr = Some \<lparr>total = Some 10, last_sent = Some 0\<rparr>"
    "total \<lparr>total = Some 10, last_sent = Some (0::int)\<rparr> = Some 10"
    "resume_point (get_sync_state init_db (device_address ?tr)) 10 = (0, 10)"
    "start_time ?tr = 1" "ticks ?tr = [three_frames_tick, idle_tick]" "trailing ?tr = []"
    "device_address ?tr = example_mac" "insert_now_ms ?tr = 1000" "update_now_ms ?tr = 1001"
    by (simp_all add: example_transport_def get_storage_status_def parse_status_def
        parse_uint16_be_def resume_point_def get_sync_state_def init_db_def Let_def)
  let ?s3 = "?s\<lparr>printed := printed ?s @ [No_packets], transfer_complete := True\<rparr>"
  have dl: "download_data ?tr init_db = Some (save_received ?tr init_db 0 ?s3)"
    using loop by (simp add: download_data_resume [OF h(1,2,3,4)] Let_def h(5,6,7))
  have raw: "map temp_raw ?recs = [300, 250, 200]" "map seq ?recs = [0, 0, 0]"
    by (simp_all add: sample_at_def raw_record.defs sensor_record.defs record_at_def
        one_record_frame_def record_250_frame_def record_200_frame_def be_i16_def be_u16_def)
  have temp: "temp_c (sample_at 0 int (payload one_record_frame) (Suc 0) 0) = 30"
    by (simp add: sample_at_fields record_at_def one_record_frame_def be_i16_def be_u16_def)
  have hundredths: "py_int (py_float (py_float 30 * 100)) = 3000"
    using stored_hundredths(1) by simp
  have ins: "map db_seq (records (fst (insert_records init_db example_mac ?recs (- 50) 1000))) = [0]"
    "map temp_x100 (records (fst (insert_records init_db example_mac ?recs (- 50) 1000)))
       = [py_int (py_float (py_float 30 * 100))]"
    "snd (insert_records init_db example_mac ?recs (- 50) 1000) = 3"
    by (simp_all add: insert_records_def insert_or_ignore_def init_db_def Let_def temp)
  let ?res = "save_received ?tr init_db 0 ?s3"
  have fin: "received_records (final ?res) = ?recs" "transfer_complete (final ?res)"
    "control_writes (final ?res) = [[1, 0, 0]]" "success ?res"
    "last (printed (final ?res)) = Saved 3"
    "records (db_after ?res) = records (fst (insert_records init_db example_mac ?recs (- 50) 1000))"
    using s(4,5) ins(3)
    by (simp_all add: save_received_def Let_def h(8,9,10,11))
  have "\<exists>s. passes 0 1 [three_frames_tick] (start_transfer ?tr 0) = Some s
          \<and> length (received_records s) = 3
          \<and> now idle_tick - last_packet_time s > idle_timeout"
    using pre idle(2) s(4) by (intro exI [of _ ?s]) simp
  moreover have "\<exists>res. download_data ?tr init_db = Some res
          \<and> success res \<and> transfer_complete (final res)
          \<and> control_writes (final res) = [[1, 0, 0]]
          \<and> map temp_raw (received_records (final res)) = [300, 250, 200]
          \<and> map seq (received_records (final res)) = [0, 0, 0]
          \<and> map db_seq (records (db_after res)) = [0]
          \<and> map temp_x100 (records (db_after res)) = [3000]
          \<and> last (printed (final res)) = Saved 3"
    using dl fin raw ins(1,2) hundredths
    by (intro exI [of _ ?res]) simp
  ultimately show ?thesis
    using idle(1) by blast
qed

theorem idle_completion_commits_one_of_three_witness:
  "control_found (example_transport [0, 10, 0, 0] [three_frames_tick, idle_tick])
   \<and> data_transfer_found (example_transport [0, 10, 0, 0] [three_frames_tick, idle_tick])
   \<and> (\<exists>res. download_data (example_transport [0, 10, 0, 0] [three_frames_tick, idle_tick])
               init_db = Some res
          \<and> length (received_records (final res)) = 3
          \<and> length (records (db_after res)) = 1)"
proof -
  obtain res where res:
    "download_data (example_transport [0, 10, 0, 0] [three_frames_tick, idle_tick]) init_db
       = Some res"
    "map seq (received_records (final res)) = [0, 0, 0]"
    "map db_seq (records (db_after res)) = [0]"
    using idle_completion_commits_one_of_three by (elim conjE exE) (rule that)
  have "length (map seq (received_records (final res))) = 3"
    "length (map db_seq (records (db_after res))) = 1"
    by (simp_all add: res(2,3) del: length_map)
  then show ?thesis
    using res(1) by (auto simp: example_transport_def)
qed

subsection \<open>The idle-timer reference point\<close>

lemma handler_nonempty_time:
  "payload fr \<noteq> [] \<Longrightarrow> last_packet_time (notification_handler a fr s) = arrival fr"
  by (simp add: notification_handler_def Let_def)

lemma handler_undecodable:
  assumes "undecodable (payload fr)"
  shows "notification_handler a fr s =
           s\<lparr>last_packet_time := arrival fr, printed := printed s @ [Notif (payload fr)]\<rparr>"
  using assms
  by (auto simp: undecodable_def notification_handler_def Let_def
      PACKET_TYPE_HEADER_def PACKET_TYPE_DATA_def PACKET_TYPE_END_def)

lemma deliver_undecodable:
  "list_all (\<lambda>fr. undecodable (payload fr)) frs \<Longrightarrow>
   transfer_complete (deliver a frs s) = transfer_complete s
   \<and> stats (deliver a frs s) = stats s
   \<and> received_records (deliver a frs s) = received_records s
   \<and> (frs \<noteq> [] \<longrightarrow> last_packet_time (deliver a frs s) = arrival (last frs))"
proof (induction frs arbitrary: s)
  case Nil
  then show ?case by simp
next
  case (Cons fr frs)
  have fr: "undecodable (payload fr)" and frs: "list_all (\<lambda>fr. undecodable (payload fr)) frs"
    using Cons.prems by simp_all
  show ?case
    using Cons.IH [OF frs, of "notification_handler a fr s"]
    by (simp add: handler_undecodable [OF fr])
qed

lemma busy_pass:
  assumes "\<not> transfer_complete s" and "busy_tick tk"
  shows "poll_step a ts tk s =
           (let s' = deliver a (arrived tk) s in
            if now tk - ts > timeout
            then Break (s'\<lparr>printed := printed s' @ [Timeout_waiting],
                           control_writes := control_writes s' @ [[word_of_int CMD_STOP_TRANSFER]]\<rparr>)
            else Continue s')"
    and "\<not> transfer_complete (deliver a (arrived tk) s)"
    and "received_records (deliver a (arrived tk) s) = received_records s"
proof -
  have u: "list_all (\<lambda>fr. undecodable (payload fr)) (arrived tk)" and ne: "arrived tk \<noteq> []"
    and near: "now tk - arrival (last (arrived tk)) \<le> idle_timeout"
    using assms(2) by (simp_all add: busy_tick_def)
  note d = deliver_undecodable [OF u, of a s]
  show "\<not> transfer_complete (deliver a (arrived tk) s)"
    using d assms(1) by simp
  show "received_records (deliver a (arrived tk) s) = received_records s"
    using d by simp
  show "poll_step a ts tk s =
           (let s' = deliver a (arrived tk) s in
            if now tk - ts > timeout
            then Break (s'\<lparr>printed := printed s' @ [Timeout_waiting],
                           control_writes := control_writes s' @ [[word_of_int CMD_STOP_TRANSFER]]\<rparr>)
            else Continue s')"
    using d assms(1) ne near by (simp add: poll_step_def Let_def)
qed

lemma busy_stream:
  "\<not> transfer_complete s \<Longrightarrow> list_all busy_tick tks \<Longrightarrow>
   (case poll_loop a ts tks s of
      None \<Rightarrow> list_all (\<lambda>tk. now tk - ts \<le> timeout) tks
    | Some s' \<Rightarrow>
        \<not> transfer_complete s' \<and> last (printed s') = Timeout_waiting
        \<and> \<not> list_all (\<lambda>tk. now tk - ts \<le> timeout) tks
        \<and> control_writes s' = control_writes s @ [[word_of_int CMD_STOP_TRANSFER]]
        \<and> received_records s' = received_records s)"
proof (induction tks arbitrary: s)
  case Nil
  then show ?case by simp
next
  case (Cons tk tks)
  have tk: "busy_tick tk" and tks: "list_all busy_tick tks"
    using Cons.prems(2) by simp_all
  let ?s' = "deliver a (arrived tk) s"
  note b1 = busy_pass(1) [OF Cons.prems(1) tk, where a = a and ts = ts]
  note b2 = busy_pass(2) [OF Cons.prems(1) tk, where a = a]
  note b3 = busy_pass(3) [OF Cons.prems(1) tk, where a = a]
  show ?case
  proof (cases "now tk - ts > timeout")
    case True
    then show ?thesis
      using b1 b2 b3 by (simp add: Let_def deliver_control_writes)
  next
    case False
    then have "poll_loop a ts (tk # tks) s = poll_loop a ts tks ?s'"
      using b1 by (simp add: Let_def)
    then show ?thesis
      using Cons.IH [OF b2 tks] False b3
      by (auto simp: deliver_control_writes split: option.splits)
  qed
qed

text \<open>
  Claim C10. The handler sets the idle-timer reference point \<open>last_packet_time\<close> to the
  arrival time of every non-empty frame, whatever its type and length, and returns at
  once, changing nothing, on an empty frame. Hence, while undecodable frames keep
  arriving, the last of each pass within the idle window of the time the pass reads, the
  waiting loop never completes by the idle window, even when DATA frames have been
  counted before: it goes on as long as the passes stay within the hard timeout and ends
  at the first pass beyond it, with the transfer not marked complete, the timeout
  reported and STOP written.
\<close>

theorem nonempty_frame_resets_idle_timer:
  "(payload fr \<noteq> [] \<longrightarrow> last_packet_time (notification_handler a fr s) = arrival fr)
   \<and> (payload fr = [] \<longrightarrow> notification_handler a fr s = s)
   \<and> (\<not> transfer_complete s \<and> list_all busy_tick tks \<longrightarrow>
        (case poll_loop a ts tks s of
           None \<Rightarrow> list_all (\<lambda>tk. now tk - ts \<le> timeout) tks
         | Some s' \<Rightarrow>
             \<not> transfer_complete s' \<and> last (printed s') = Timeout_waiting
             \<and> \<not> list_all (\<lambda>tk. now tk - ts \<le> timeout) tks
             \<and> control_writes s' = control_writes s @ [[word_of_int CMD_STOP_TRANSFER]]
             \<and> received_records s' = received_records s))"
  using handler_nonempty_time [of fr a s] handler_empty [of fr a s] busy_stream [where s = s and tks = tks and a = a and ts = ts]
  by blast

theorem nonempty_frame_resets_idle_timer_witness:
  "payload (noise_frame 2) \<noteq> []
   \<and> last_packet_time (notification_handler 0 (noise_frame 2) (reset_state 0)) = 2
   \<and> payload (noise_frame 2\<lparr>payload := []\<rparr>) = []
   \<and> notification_handler 0 (noise_frame 2\<lparr>payload := []\<rparr>) (reset_state 0) = reset_state 0
   \<and> \<not> transfer_complete (notification_handler 0 two_record_frame (reset_state 1))
   \<and> 0 < data_packets (stats (notification_handler 0 two_record_frame (reset_state 1)))
   \<and> list_all busy_tick busy_ticks
   \<and> (\<exists>s'. poll_loop 0 1 busy_ticks (notification_handler 0 two_record_frame (reset_state 1))
               = Some s'
          \<and> \<not> transfer_complete s' \<and> last (printed s') = Timeout_waiting)"
proof -
  let ?s = "notification_handler 0 two_record_frame (reset_state 1)"
  have h1: "payload (noise_frame 2) \<noteq> []" and h2: "payload (noise_frame 2\<lparr>payload := []\<rparr>) = []"
    by (simp_all add: noise_frame_def)
  have h3: "\<not> transfer_complete ?s" and dp: "0 < data_packets (stats ?s)"
    by (simp_all add: notification_handler_def two_record_frame_def reset_state_def Let_def
        PACKET_TYPE_HEADER_def PACKET_TYPE_DATA_def)
  have h4: "list_all busy_tick busy_ticks"
    by (simp add: busy_ticks_def busy_tick_def noise_frame_def undecodable_def idle_timeout_def
        PACKET_TYPE_HEADER_def PACKET_TYPE_DATA_def PACKET_TYPE_END_def)
  have late: "\<not> list_all (\<lambda>tk. now tk - 1 \<le> timeout) busy_ticks"
    by (simp add: busy_ticks_def timeout_def)
  show ?thesis
    using nonempty_frame_resets_idle_timer [where fr = "noise_frame 2" and a = 0
        and s = ?s and tks = busy_ticks and ts = 1]
      nonempty_frame_resets_idle_timer [where fr = "noise_frame 2" and a = 0
        and s = "reset_state 0" and tks = busy_ticks and ts = 1]
      nonempty_frame_resets_idle_timer [where fr = "noise_frame 2\<lparr>payload := []\<rparr>" and a = 0
        and s = "reset_state 0" and tks = busy_ticks and ts = 1]
      h1 h2 h3 dp h4 late
    by (auto simp: noise_frame_def split: option.splits)
qed

subsection \<open>The waiting loop ends\<close>

text \<open>
  The loop ends at the latest with the first pass that reads a time beyond the hard
  timeout, so a call of \<open>download_data\<close> observed that long returns.
\<close>

lemma poll_step_late:
  "now tk - ts > timeout \<Longrightarrow> \<exists>s'. poll_step a ts tk s = Break s'"
  by (simp add: poll_step_def Let_def)

lemma poll_loop_returns:
  "\<not> list_all (\<lambda>tk. now tk - ts \<le> timeout) tks \<Longrightarrow> \<exists>s'. poll_loop a ts tks s = Some s'"
proof (induction tks arbitrary: s)
  case Nil
  then show ?case by simp
next
  case (Cons tk tks)
  show ?case
  proof (cases "poll_step a ts tk s")
    case (Break s1)
    then show ?thesis by simp
  next
    case (Continue s1)
    then have "\<not> now tk - ts > timeout"
      using poll_step_late [where ts = ts and tk = tk and a = a and s = s] by auto
    then have "\<not> list_all (\<lambda>tk. now tk - ts \<le> timeout) tks"
      using Cons.prems by simp
    then show ?thesis
      using Cons.IH [of s1] Continue by simp
  qed
qed

lemma download_data_returns:
  assumes "\<not> list_all (\<lambda>tk. now tk - start_time tr \<le> timeout) (ticks tr)"
  shows "\<exists>res. download_data tr db = Some res"
proof -
  let ?a = "max (last_synced_seq (get_sync_state db (device_address tr))) (- 1) + 1"
  obtain s' where "poll_loop ?a (start_time tr) (ticks tr) (start_transfer tr ?a) = Some s'"
    using poll_loop_returns [OF assms] by blast
  then show ?thesis
    by (simp add: download_data_def Let_def split: option.split)
qed

end
